theory Spec2Isabelle
  imports Main "HOL-Library.Sublist" "HOL-Library.Multiset"
begin

section \<open>FontSniffer: the harvesting engine of \<^verbatim>\<open>src/FontSniffer/Sniffer.py\<close>\<close>

text \<open>
  The class \<^verbatim>\<open>FontSniffer\<close> is embedded by explicit state passing. Python's unbounded
  integers are \<open>int\<close>, \<open>str\<close> is \<open>string\<close> (the UTF-8 bytes of the text), \<open>None\<close> is
  \<open>None\<close>, and an exception that leaves a function is the \<open>Inl\<close> of a sum.

  Everything outside the class is a parameter: the network (\<^verbatim>\<open>requests.Session.get\<close>),
  the clock (\<^verbatim>\<open>time.sleep\<close>), the HTML parser (\<^verbatim>\<open>BeautifulSoup(html, "html.parser")\<close>),
  \<^verbatim>\<open>str.lower\<close>, \<^verbatim>\<open>str.strip\<close>, \<^verbatim>\<open>urljoin\<close> and the order in which the thread pool
  completes its tasks. They act on a world \<open>'w\<close> that the model threads through every call, so that two
  polls of \<^verbatim>\<open>should_stop\<close> or two requests for one page may answer differently.
\<close>

subsection \<open>The statistics dictionary (lines 49-54)\<close>

text \<open>\<^verbatim>\<open>self.stats\<close> is a dictionary with four fixed keys, each an integer counter.\<close>

record run_stats =
  total_requests :: int
  successful_requests :: int
  failed_requests :: int
  retried_requests :: int

definition init_stats :: run_stats where
  "init_stats = \<lparr>total_requests = 0, successful_requests = 0,
                 failed_requests = 0, retried_requests = 0\<rparr>"

subsection \<open>The outside world\<close>

text \<open>
  What \<^verbatim>\<open>self.session.get(url, timeout=self.timeout, allow_redirects=False)\<close> does:
  it raises a \<^verbatim>\<open>requests.exceptions.RequestException\<close> (connection error, timeout), it
  raises some other \<^verbatim>\<open>Exception\<close>, which \<^verbatim>\<open>_fetch_page\<close> does not catch, or it returns a
  response with a status code and a body. The redirect is not followed, so a 3xx
  response is returned as it is.
\<close>

datatype get_result =
  RequestException string
  | OtherException string
  | Response int string

text \<open>
  \<^verbatim>\<open>response.raise_for_status()\<close> of the requests library (not part of this repository):
  it raises \<^verbatim>\<open>HTTPError\<close>, a \<^verbatim>\<open>RequestException\<close>, exactly for the client errors 400-499 and
  the server errors 500-599, and returns for every other status code.
\<close>

definition raise_for_status :: "int \<Rightarrow> bool" where
  "raise_for_status status_code \<longleftrightarrow> 400 \<le> status_code \<and> status_code < 600"

text \<open>The input and output the engine performs, in the order it performs them.\<close>

datatype io = Get int | Sleep int

text \<open>
  The document tree \<^verbatim>\<open>BeautifulSoup\<close> builds: a tag has a name, attributes and children;
  a multi-valued attribute (\<^verbatim>\<open>class\<close>) holds the list of its whitespace-separated
  values, any other attribute a one-element list.
\<close>

datatype node =
  Tag string "(string \<times> string list) list" "node list"
  | NavigableString string

text \<open>
  The parser may raise (\<open>Inl\<close>). \<^verbatim>\<open>unicode_digit\<close> is the table of the decimal digits beyond
  ASCII: for a string that starts with one, its value and the number of bytes of its
  encoding. \<^verbatim>\<open>int_max_str_digits\<close> is the interpreter's limit on the digits \<^verbatim>\<open>int\<close> converts.
  \<^verbatim>\<open>completion_time\<close> is the time at which the task of a page completes in the pool.
\<close>

record 'w env =
  session_get :: "int \<Rightarrow> 'w \<Rightarrow> get_result \<times> 'w"
  time_sleep :: "int \<Rightarrow> 'w \<Rightarrow> 'w"
  html_parser :: "string \<Rightarrow> string + node"
  str_lower :: "string \<Rightarrow> string"
  str_strip :: "string \<Rightarrow> string"
  urljoin :: "string \<Rightarrow> string \<Rightarrow> string"
  unicode_digit :: "string \<Rightarrow> (int \<times> nat) option"
  int_max_str_digits :: nat
  completion_time :: "int \<Rightarrow> nat"

subsection \<open>The engine instance (lines 15-54)\<close>

text \<open>
  The attributes of \<^verbatim>\<open>self\<close> that the methods read or write, with the world and the
  record of the input and output done so far. \<^verbatim>\<open>should_stop\<close> is a callback of the
  caller: polling it reads the world and may change it. \<^verbatim>\<open>keyword\<close> is the attribute
  \<^verbatim>\<open>_keyword\<close>, absent until \<^verbatim>\<open>search\<close> sets it.
\<close>

record 'w sniffer =
  max_retries :: int
  max_workers :: int
  should_stop :: "'w \<Rightarrow> bool \<times> 'w"
  stats :: run_stats
  keyword :: "string option"
  world :: 'w
  io_log :: "io list"

text \<open>
  The constructor. The user agent only sets a header of the session, which is part of the
  world here; the worker count is clamped to 1..20 (line 39).
\<close>

definition init :: "int \<Rightarrow> 'w \<Rightarrow> 'w sniffer" where
  "init workers w =
     \<lparr>max_retries = 3,
      max_workers = max 1 (min workers 20),
      should_stop = (\<lambda>w. (False, w)),
      stats = init_stats,
      keyword = None,
      world = w,
      io_log = []\<rparr>"

subsection \<open>\<^verbatim>\<open>_fetch_page\<close> (lines 86-125)\<close>

definition poll :: "'w sniffer \<Rightarrow> bool \<times> 'w sniffer" where
  "poll s = (case should_stop s (world s) of (b, w) \<Rightarrow> (b, s\<lparr>world := w\<rparr>))"

definition incr_total :: "'w sniffer \<Rightarrow> 'w sniffer" where
  "incr_total s = s\<lparr>stats := (stats s)\<lparr>total_requests := total_requests (stats s) + 1\<rparr>\<rparr>"

definition incr_successful :: "'w sniffer \<Rightarrow> 'w sniffer" where
  "incr_successful s =
     s\<lparr>stats := (stats s)\<lparr>successful_requests := successful_requests (stats s) + 1\<rparr>\<rparr>"

definition incr_failed :: "'w sniffer \<Rightarrow> 'w sniffer" where
  "incr_failed s = s\<lparr>stats := (stats s)\<lparr>failed_requests := failed_requests (stats s) + 1\<rparr>\<rparr>"

definition incr_retried :: "'w sniffer \<Rightarrow> 'w sniffer" where
  "incr_retried s = s\<lparr>stats := (stats s)\<lparr>retried_requests := retried_requests (stats s) + 1\<rparr>\<rparr>"

text \<open>Lines 103-106: the request and \<^verbatim>\<open>raise_for_status\<close>; an HTTP error status becomes
  a \<^verbatim>\<open>RequestException\<close>.\<close>

definition request :: "'w env \<Rightarrow> int \<Rightarrow> 'w sniffer \<Rightarrow> get_result \<times> 'w sniffer" where
  "request E page s =
     (case session_get E page (world s) of
        (r, w) \<Rightarrow>
          ((case r of
              Response status_code body \<Rightarrow>
                if raise_for_status status_code then RequestException ''HTTPError''
                else Response status_code body
            | _ \<Rightarrow> r),
           s\<lparr>world := w, io_log := io_log s @ [Get page]\<rparr>))"

definition sleep :: "'w env \<Rightarrow> int \<Rightarrow> 'w sniffer \<Rightarrow> 'w sniffer" where
  "sleep E retry_count s =
     s\<lparr>world := time_sleep E retry_count (world s), io_log := io_log s @ [Sleep retry_count]\<rparr>"

function fetch_page ::
  "'w env \<Rightarrow> 'w sniffer \<Rightarrow> int \<Rightarrow> int \<Rightarrow> (string + string option) \<times> 'w sniffer" where
  "fetch_page E s page retry_count =
     (case poll s of
        (True, s1) \<Rightarrow> (Inr None, s1)
      | (False, s1) \<Rightarrow>
          (case request E page (incr_total s1) of
             (Response status_code body, s2) \<Rightarrow> (Inr (Some body), incr_successful s2)
           | (OtherException e, s2) \<Rightarrow> (Inl e, s2)
           | (RequestException e, s2) \<Rightarrow>
               (let s3 = incr_failed s2 in
                if retry_count < max_retries s3 then
                  (case poll s3 of
                     (False, s4) \<Rightarrow>
                       fetch_page E (sleep E retry_count (incr_retried s4)) page (retry_count + 1)
                   | (True, s4) \<Rightarrow> (Inr None, s4))
                else (Inr None, s3))))"
  by pat_completeness auto

lemma poll_max_retries: "poll s = (b, s') \<Longrightarrow> max_retries s' = max_retries s"
  by (auto simp: poll_def split: prod.splits)

lemma request_max_retries: "request E page s = (r, s') \<Longrightarrow> max_retries s' = max_retries s"
  by (auto simp: request_def split: prod.splits)

lemma incr_max_retries:
  "max_retries (incr_total s) = max_retries s"
  "max_retries (incr_successful s) = max_retries s"
  "max_retries (incr_failed s) = max_retries s"
  "max_retries (incr_retried s) = max_retries s"
  "max_retries (sleep E n s) = max_retries s"
  by (simp_all add: incr_total_def incr_successful_def incr_failed_def incr_retried_def sleep_def)

termination fetch_page
  by (relation "measure (\<lambda>(E, s, page, retry_count). nat (max_retries s - retry_count))")
     (auto simp: incr_max_retries dest!: sym[of "(_, _)"] poll_max_retries request_max_retries)

declare fetch_page.simps [simp del]

subsection \<open>The document tree and the \<^verbatim>\<open>bs4\<close> operations the engine calls\<close>

text \<open>All nodes below a node, in document order: what \<^verbatim>\<open>find\<close> and \<^verbatim>\<open>find_all\<close> search.\<close>

fun descendants :: "node \<Rightarrow> node list" where
  "descendants (Tag name attrs children) = concat (map (\<lambda>c. c # descendants c) children)"
| "descendants (NavigableString t) = []"

fun is_tag :: "string \<Rightarrow> node \<Rightarrow> bool" where
  "is_tag name (Tag n attrs children) \<longleftrightarrow> n = name"
| "is_tag name (NavigableString t) \<longleftrightarrow> False"

fun attr :: "node \<Rightarrow> string \<Rightarrow> string list option" where
  "attr (Tag name attrs children) k = map_of attrs k"
| "attr (NavigableString t) k = None"

fun join_space :: "string list \<Rightarrow> string" where
  "join_space [] = []"
| "join_space [v] = v"
| "join_space (v # vs) = v @ '' '' @ join_space vs"

text \<open>A string filter on an attribute (\<^verbatim>\<open>class_="..."\<close>, \<^verbatim>\<open>id="..."\<close>): it matches one of the
  attribute's values or the whole attribute.\<close>

definition attr_is :: "node \<Rightarrow> string \<Rightarrow> string \<Rightarrow> bool" where
  "attr_is t k v =
     (case attr t k of None \<Rightarrow> False | Some vs \<Rightarrow> v \<in> set vs \<or> join_space vs = v)"

text \<open>\<^verbatim>\<open>tag.get(k, default)\<close>.\<close>

definition get :: "node \<Rightarrow> string \<Rightarrow> string \<Rightarrow> string" where
  "get t k dflt = (case attr t k of None \<Rightarrow> dflt | Some vs \<Rightarrow> join_space vs)"

definition find_tag :: "string \<Rightarrow> (node \<Rightarrow> bool) \<Rightarrow> node \<Rightarrow> node option" where
  "find_tag name p root = find (\<lambda>t. is_tag name t \<and> p t) (descendants root)"

definition find_all :: "string \<Rightarrow> (node \<Rightarrow> bool) \<Rightarrow> node \<Rightarrow> node list" where
  "find_all name p root = filter (\<lambda>t. is_tag name t \<and> p t) (descendants root)"

fun strings :: "node \<Rightarrow> string list" where
  "strings (Tag name attrs children) = concat (map strings children)"
| "strings (NavigableString t) = [t]"

text \<open>\<^verbatim>\<open>tag.get_text(strip=True)\<close>: the stripped strings below the tag, the empty ones left
  out, joined.\<close>

definition get_text :: "'w env \<Rightarrow> node \<Rightarrow> string" where
  "get_text E t = concat (filter (\<lambda>x. x \<noteq> []) (map (str_strip E) (strings t)))"

subsection \<open>The two regular expressions (lines 45-46)\<close>

text \<open>
  \<^verbatim>\<open>\d\<close> in a pattern on \<^verbatim>\<open>str\<close> is any Unicode decimal digit, and \<^verbatim>\<open>int\<close> converts every such
  digit. The digit at the head of a string, with its value and the number of bytes it
  takes: an ASCII digit, or a digit of another script, which the table of the world
  recognises (it answers only with a length that is there).
\<close>

definition digit_at :: "'w env \<Rightarrow> string \<Rightarrow> (int \<times> nat) option" where
  "digit_at E x =
     (case x of
        [] \<Rightarrow> None
      | c # cs \<Rightarrow>
          if c \<in> set ''0123456789'' then Some (of_char c - 48, 1)
          else (case unicode_digit E x of
                  None \<Rightarrow> None
                | Some (v, n) \<Rightarrow> if 0 < n \<and> n \<le> length x then Some (v, n) else None))"

lemma digit_at_length: "digit_at E x = Some (v, n) \<Longrightarrow> length (drop n x) < length x"
  by (auto simp: digit_at_def split: list.splits if_splits option.splits)

text \<open>\<^verbatim>\<open>\d+\<close>, greedy: the values of the longest run of digits at the head of a string, and
  what follows the run.\<close>

function digit_run :: "'w env \<Rightarrow> string \<Rightarrow> int list \<times> string" where
  "digit_run E x =
     (case digit_at E x of
        None \<Rightarrow> ([], x)
      | Some (v, n) \<Rightarrow> (case digit_run E (drop n x) of (vs, rest) \<Rightarrow> (v # vs, rest)))"
  by pat_completeness auto

termination digit_run
  by (relation "measure (\<lambda>(E, x). length x)") (auto dest: digit_at_length)

declare digit_run.simps [simp del]

text \<open>
  \<^verbatim>\<open>int(match.group(1))\<close> on the digits of a match. The interpreter refuses a text of more
  digits than its limit (\<^verbatim>\<open>sys.int_max_str_digits\<close>, 4300 unless it is set; 0 is no limit)
  with a \<^verbatim>\<open>ValueError\<close>.
\<close>

definition py_int :: "'w env \<Rightarrow> int list \<Rightarrow> string + int" where
  "py_int E ds =
     (if int_max_str_digits E \<noteq> 0 \<and> int_max_str_digits E < length ds then Inl ''ValueError''
      else Inr (foldl (\<lambda>a v. 10 * a + v) 0 ds))"

text \<open>
  \<^verbatim>\<open>list_200_(\d+)\.html\<close> at the start of a string, giving the digits of the group. The
  digits are matched greedily; a shorter run is followed by a digit and not by the dot,
  so there is no backtracking.
\<close>

definition page_regex_match :: "'w env \<Rightarrow> string \<Rightarrow> int list option" where
  "page_regex_match E x =
     (if prefix ''list_200_'' x then
        (case digit_run E (drop 9 x) of
           (ds, rest) \<Rightarrow> if ds \<noteq> [] \<and> prefix ''.html'' rest then Some ds else None)
      else None)"

text \<open>\<^verbatim>\<open>self._page_regex.search(x)\<close>, giving the digits of \<^verbatim>\<open>match.group(1)\<close> of the leftmost
  match.\<close>

fun page_regex_search :: "'w env \<Rightarrow> string \<Rightarrow> int list option" where
  "page_regex_search E [] = None"
| "page_regex_search E (c # cs) =
     (case page_regex_match E (c # cs) of
        Some ds \<Rightarrow> Some ds
      | None \<Rightarrow> page_regex_search E cs)"

text \<open>\<^verbatim>\<open>self._font_regex.match(x)\<close> for \<^verbatim>\<open>/font/\<close>, as a truth value.\<close>

definition font_regex_match :: "string \<Rightarrow> bool" where
  "font_regex_match x \<longleftrightarrow> prefix ''/font/'' x"

subsection \<open>\<^verbatim>\<open>_detect_total_pages\<close> (lines 56-84)\<close>

text \<open>\<^verbatim>\<open>max\<close> of a list that is not empty (on the empty list Python raises; the caller
  guards it).\<close>

fun max_list :: "int list \<Rightarrow> int" where
  "max_list [] = 0"
| "max_list (x # xs) = fold max xs x"

text \<open>Line 69.\<close>

definition pager :: "node \<Rightarrow> node option" where
  "pager soup = find_tag ''div'' (\<lambda>t. attr_is t ''class'' ''pages'') soup"

text \<open>Line 72: a regular expression as the filter of an attribute is searched for in the
  attribute.\<close>

definition page_links :: "'w env \<Rightarrow> node \<Rightarrow> node list" where
  "page_links E p =
     find_all ''a''
       (\<lambda>t. case attr t ''href'' of
              None \<Rightarrow> False
            | Some vs \<Rightarrow> page_regex_search E (join_space vs) \<noteq> None) p"

text \<open>Lines 75-77, for one link: no number when the \<^verbatim>\<open>href\<close> does not match, and a
  conversion that may raise when it does.\<close>

definition page_number :: "'w env \<Rightarrow> node \<Rightarrow> (string + int) option" where
  "page_number E link = map_option (py_int E) (page_regex_search E (get link ''href'' []))"

text \<open>Lines 74-78, the list comprehension: the number of every link that matches, in the
  order of the links; a conversion that raises ends it.\<close>

fun page_numbers :: "'w env \<Rightarrow> node list \<Rightarrow> string + int list" where
  "page_numbers E [] = Inr []"
| "page_numbers E (link # links) =
     (case page_number E link of
        None \<Rightarrow> page_numbers E links
      | Some (Inl e) \<Rightarrow> Inl e
      | Some (Inr n) \<Rightarrow>
          (case page_numbers E links of
             Inl e \<Rightarrow> Inl e
           | Inr ns \<Rightarrow> Inr (n # ns)))"

text \<open>Lines 69-81, on the parsed page.\<close>

definition pager_total :: "'w env \<Rightarrow> node \<Rightarrow> string + int" where
  "pager_total E soup =
     (case pager soup of
        None \<Rightarrow> Inr 383
      | Some p \<Rightarrow>
          if page_links E p \<noteq> [] then
            (case page_numbers E (page_links E p) of
               Inl e \<Rightarrow> Inl e
             | Inr ns \<Rightarrow> Inr (if ns \<noteq> [] then max_list ns else 383))
          else Inr 383)"

text \<open>The whole method: every exception inside the \<^verbatim>\<open>try\<close> is caught (line 82).\<close>

definition detect_total_pages :: "'w env \<Rightarrow> 'w sniffer \<Rightarrow> int \<times> 'w sniffer" where
  "detect_total_pages E s =
     (case fetch_page E s 1 0 of
        (Inl e, s') \<Rightarrow> (383, s')
      | (Inr None, s') \<Rightarrow> (383, s')
      | (Inr (Some html), s') \<Rightarrow>
          if html = [] then (383, s')
          else (case html_parser E html of
                  Inl e \<Rightarrow> (383, s')
                | Inr soup \<Rightarrow>
                    (case pager_total E soup of
                       Inl e \<Rightarrow> (383, s')
                     | Inr n \<Rightarrow> (n, s'))))"

subsection \<open>\<^verbatim>\<open>_parse_and_filter_page\<close> (lines 127-168)\<close>

text \<open>Line 155: the first \<^verbatim>\<open>a\<close> of class \<^verbatim>\<open>mg-r10\<close> whose \<^verbatim>\<open>href\<close> is there, is not empty and
  starts with \<^verbatim>\<open>/font/\<close>.\<close>

definition find_font_a :: "node \<Rightarrow> node option" where
  "find_font_a li =
     find_tag ''a''
       (\<lambda>t. attr_is t ''class'' ''mg-r10'' \<and>
            (case attr t ''href'' of
               None \<Rightarrow> False
             | Some vs \<Rightarrow> join_space vs \<noteq> [] \<and> font_regex_match (join_space vs))) li"

text \<open>Line 152.\<close>

definition keyword_lower :: "'w env \<Rightarrow> string option \<Rightarrow> string" where
  "keyword_lower E kw = (case kw of Some k \<Rightarrow> str_lower E k | None \<Rightarrow> [])"

text \<open>Lines 154-166, the loop over the items; Python's \<^verbatim>\<open>in\<close> on strings is \<open>sublist\<close>.\<close>

fun collect :: "'w env \<Rightarrow> string \<Rightarrow> node list \<Rightarrow> (string \<times> string) list" where
  "collect E kw [] = []"
| "collect E kw (li # lis) =
     (case find_font_a li of
        None \<Rightarrow> collect E kw lis
      | Some font_a_tag \<Rightarrow>
          (let font_name = get_text E font_a_tag in
           if kw \<noteq> [] \<and> \<not> sublist kw (str_lower E font_name) then collect E kw lis
           else (font_name, urljoin E ''http://www.downcc.com'' (get font_a_tag ''href'' []))
                # collect E kw lis))"

text \<open>Line 142.\<close>

definition target_section :: "node \<Rightarrow> node option" where
  "target_section soup =
     find_tag ''section'' (\<lambda>t. attr_is t ''class'' ''mg-t10 border soft-list'') soup"

text \<open>Lines 146-147.\<close>

definition font_ul :: "node \<Rightarrow> node option" where
  "font_ul section =
     find_tag ''ul''
       (\<lambda>t. attr_is t ''id'' ''li-change-color'' \<and> attr_is t ''class'' ''soft-list-bd hover-one'')
       section"

text \<open>Lines 141-168, on the parsed page.\<close>

definition parse_records :: "'w env \<Rightarrow> string option \<Rightarrow> node \<Rightarrow> (string \<times> string) list" where
  "parse_records E kw soup =
     (case target_section soup of
        None \<Rightarrow> []
      | Some section \<Rightarrow>
          (case font_ul section of
             None \<Rightarrow> []
           | Some ul \<Rightarrow> collect E (keyword_lower E kw) (find_all ''li'' (\<lambda>t. True) ul)))"

definition parse_and_filter_page ::
  "'w env \<Rightarrow> 'w sniffer \<Rightarrow> int \<Rightarrow> (string + int \<times> (string \<times> string) list) \<times> 'w sniffer" where
  "parse_and_filter_page E s page =
     (case fetch_page E s page 0 of
        (Inl e, s') \<Rightarrow> (Inl e, s')
      | (Inr None, s') \<Rightarrow> (Inr (page, []), s')
      | (Inr (Some html), s') \<Rightarrow>
          if html = [] then (Inr (page, []), s')
          else (case html_parser E html of
                  Inl e \<Rightarrow> (Inl e, s')
                | Inr soup \<Rightarrow> (Inr (page, parse_records E (keyword s') soup), s')))"

subsection \<open>\<^verbatim>\<open>search\<close> (lines 170-245)\<close>

text \<open>
  An event is the dictionary \<^verbatim>\<open>{"type": ..., "content": ...}\<close>. The content, a formatted
  text in the source, is kept as the values it is formatted from.
\<close>

datatype msg =
  Detecting
  | Detected int
  | Starting int string
  | Aborted
  | Progress int int int int
  | PageException int string
  | Found string string
  | Summary int run_stats

datatype event = Event (ev_type: string) (content: msg)

definition status :: "msg \<Rightarrow> event" where
  "status m = Event ''status'' m"

definition result :: "string \<times> string \<Rightarrow> event" where
  "result r = Event ''result'' (Found (fst r) (snd r))"

text \<open>Lines 196-199: one task per page of \<^verbatim>\<open>range(1, total_pages + 1)\<close>.\<close>

definition submit :: "int \<Rightarrow> int list" where
  "submit total_pages = [1..total_pages]"

text \<open>Line 202: \<^verbatim>\<open>as_completed\<close> gives every submitted task once, in the order of completion
  (tasks that complete together, in the order of submission).\<close>

definition as_completed :: "'w env \<Rightarrow> int list \<Rightarrow> int list" where
  "as_completed E pages = sort_key (completion_time E) pages"

text \<open>
  The pool runs the tasks concurrently; the model runs them one at a time, each to its
  end, in the order in which they complete. After the \<^verbatim>\<open>break\<close> of line 206 the tasks
  that are left still run: \<^verbatim>\<open>shutdown(wait=False)\<close> cancels nothing and leaving the \<^verbatim>\<open>with\<close>
  block waits for them.
\<close>

fun run_rest :: "'w env \<Rightarrow> 'w sniffer \<Rightarrow> int list \<Rightarrow> 'w sniffer" where
  "run_rest E s [] = s"
| "run_rest E s (page # rest) = run_rest E (snd (parse_and_filter_page E s page)) rest"

text \<open>Lines 202-231, the loop over the completed tasks; it gives the events, the count
  of the records found and the state.\<close>

fun drain ::
  "'w env \<Rightarrow> int \<Rightarrow> 'w sniffer \<Rightarrow> int \<Rightarrow> int \<Rightarrow> int list \<Rightarrow> event list \<times> int \<times> 'w sniffer"
  where
  "drain E total_pages s completed_pages total_found [] = ([], total_found, s)"
| "drain E total_pages s completed_pages total_found (page # rest) =
     (case parse_and_filter_page E s page of
        (res, s1) \<Rightarrow>
          (case poll s1 of
             (True, s2) \<Rightarrow> ([status Aborted], total_found, run_rest E s2 rest)
           | (False, s2) \<Rightarrow>
               (case res of
                  Inr (p, matched_fonts) \<Rightarrow>
                    (case drain E total_pages s2 (completed_pages + 1)
                            (total_found + int (length matched_fonts)) rest of
                       (evs, found, s3) \<Rightarrow>
                         (status (Progress page (completed_pages + 1) total_pages total_found)
                            # map result matched_fonts @ evs, found, s3))
                | Inl e \<Rightarrow>
                    (case drain E total_pages s2 completed_pages total_found rest of
                       (evs, found, s3) \<Rightarrow> (status (PageException page e) # evs, found, s3)))))"

definition search :: "'w env \<Rightarrow> 'w sniffer \<Rightarrow> string \<Rightarrow> event list \<times> 'w sniffer" where
  "search E s kw =
     (case detect_total_pages E (s\<lparr>keyword := Some kw\<rparr>) of
        (total_pages, s1) \<Rightarrow>
          (case drain E total_pages s1 0 0 (as_completed E (submit total_pages)) of
             (evs, total_found, s2) \<Rightarrow>
               (case poll s2 of
                  (stop, s3) \<Rightarrow>
                    ([status Detecting, status (Detected total_pages),
                      status (Starting (max_workers s) kw)]
                     @ evs
                     @ (if \<not> stop then [status (Summary total_found (stats s3))] else []),
                     s3))))"

subsection \<open>\<^verbatim>\<open>get_stats\<close> (lines 247-249)\<close>

text \<open>
  Whether \<^verbatim>\<open>get_stats\<close> gives a copy or the engine's own dictionary shows only where
  dictionaries are objects with an identity. The heap is the list of the dictionaries
  allocated so far and an address is a position in it; the engine holds the address of
  its \<^verbatim>\<open>stats\<close>, and \<^verbatim>\<open>dict.copy\<close> allocates a new dictionary with the same items.
\<close>

type_synonym heap = "run_stats list"

definition alloc :: "heap \<Rightarrow> run_stats \<Rightarrow> heap \<times> nat" where
  "alloc h d = (h @ [d], length h)"

definition get_stats :: "heap \<Rightarrow> nat \<Rightarrow> heap \<times> nat" where
  "get_stats h stats_ref = alloc h (h ! stats_ref)"

text \<open>An assignment to an item of the dictionary at an address, as a caller may do with
  the snapshot it holds.\<close>

definition store :: "heap \<Rightarrow> nat \<Rightarrow> (run_stats \<Rightarrow> run_stats) \<Rightarrow> heap" where
  "store h a f = (if a < length h then h[a := f (h ! a)] else h)"

subsection \<open>The counters under concurrent workers (lines 101, 108, 111, 114)\<close>

text \<open>
  The pool runs \<^verbatim>\<open>_fetch_page\<close> in several threads on the one \<^verbatim>\<open>self.stats\<close>. The source takes
  no lock and uses no atomic operation: each update is the statement
  \<^verbatim>\<open>self.stats[key] += 1\<close>, which reads the item, adds one and writes the item. A worker
  is the list of the increments it still has to make and, while an increment is under
  way, the value it has read; a step of a worker is the read or the write of its next
  increment; a schedule names the worker that makes each step.
\<close>

datatype counter = Total | Successful | Failed | Retried

fun read_counter :: "counter \<Rightarrow> run_stats \<Rightarrow> int" where
  "read_counter Total st = total_requests st"
| "read_counter Successful st = successful_requests st"
| "read_counter Failed st = failed_requests st"
| "read_counter Retried st = retried_requests st"

fun write_counter :: "counter \<Rightarrow> int \<Rightarrow> run_stats \<Rightarrow> run_stats" where
  "write_counter Total v st = st\<lparr>total_requests := v\<rparr>"
| "write_counter Successful v st = st\<lparr>successful_requests := v\<rparr>"
| "write_counter Failed v st = st\<lparr>failed_requests := v\<rparr>"
| "write_counter Retried v st = st\<lparr>retried_requests := v\<rparr>"

record worker =
  todo :: "counter list"
  loaded :: "int option"

definition worker_step :: "worker \<Rightarrow> run_stats \<Rightarrow> worker \<times> run_stats" where
  "worker_step w st =
     (case todo w of
        [] \<Rightarrow> (w, st)
      | k # ks \<Rightarrow>
          (case loaded w of
             None \<Rightarrow> (w\<lparr>loaded := Some (read_counter k st)\<rparr>, st)
           | Some v \<Rightarrow> (w\<lparr>todo := ks, loaded := None\<rparr>, write_counter k (v + 1) st)))"

fun run_schedule :: "nat list \<Rightarrow> worker list \<Rightarrow> run_stats \<Rightarrow> worker list \<times> run_stats" where
  "run_schedule [] ws st = (ws, st)"
| "run_schedule (i # sched) ws st =
     (if i < length ws then
        (case worker_step (ws ! i) st of (w, st') \<Rightarrow> run_schedule sched (ws[i := w]) st')
      else run_schedule sched ws st)"

text \<open>The increments of a counter that the workers still have to make.\<close>

definition pending :: "counter \<Rightarrow> worker list \<Rightarrow> int" where
  "pending k ws = int (sum_list (map (\<lambda>w. count_list (todo w) k) ws))"

text \<open>A schedule in which no two increments overlap: the worker that reads makes the
  next step too, the write.\<close>

definition serial :: "nat list \<Rightarrow> nat list" where
  "serial turns = concat (map (\<lambda>i. [i, i]) turns)"

subsection \<open>Notions the properties are stated with\<close>

text \<open>The cancellation signal is never set: every poll answers no.\<close>

definition never_stop :: "'w sniffer \<Rightarrow> bool" where
  "never_stop s \<longleftrightarrow> (\<forall>w. \<not> fst (should_stop s w))"

text \<open>The transport fails on every attempt for a page: the request raises a
  \<^verbatim>\<open>RequestException\<close>, or the response has an error status.\<close>

definition always_fails :: "'w env \<Rightarrow> int \<Rightarrow> bool" where
  "always_fails E page \<longleftrightarrow>
     (\<forall>w. case fst (session_get E page w) of
            RequestException e \<Rightarrow> True
          | OtherException e \<Rightarrow> False
          | Response status_code body \<Rightarrow> raise_for_status status_code)"

text \<open>The number of requests in a record of input and output.\<close>

definition gets :: "io list \<Rightarrow> int" where
  "gets l = int (length (filter (\<lambda>a. case a of Get p \<Rightarrow> True | Sleep n \<Rightarrow> False) l))"

text \<open>
  How the counters move between two states, \<open>raised\<close> being the number of the calls in
  between that an exception other than a \<^verbatim>\<open>RequestException\<close> left: the total by the number
  of requests made, and by the successes, the failures and \<open>raised\<close> together; no counter
  goes down; the retries by no more than the failures.
\<close>

definition counted :: "int \<Rightarrow> 'w sniffer \<Rightarrow> 'w sniffer \<Rightarrow> bool" where
  "counted raised s s' \<longleftrightarrow>
     total_requests (stats s') - total_requests (stats s) = gets (io_log s') - gets (io_log s) \<and>
     total_requests (stats s') - total_requests (stats s) =
       (successful_requests (stats s') - successful_requests (stats s)) +
       (failed_requests (stats s') - failed_requests (stats s)) + raised \<and>
     successful_requests (stats s) \<le> successful_requests (stats s') \<and>
     failed_requests (stats s) \<le> failed_requests (stats s') \<and>
     retried_requests (stats s) \<le> retried_requests (stats s') \<and>
     retried_requests (stats s') - retried_requests (stats s) \<le>
       failed_requests (stats s') - failed_requests (stats s)"

text \<open>A sequence of calls of \<^verbatim>\<open>_fetch_page\<close> on one instance, with the results.\<close>

fun fetch_pages ::
  "'w env \<Rightarrow> 'w sniffer \<Rightarrow> int list \<Rightarrow> (string + string option) list \<times> 'w sniffer" where
  "fetch_pages E s [] = ([], s)"
| "fetch_pages E s (page # pages) =
     (case fetch_page E s page 0 of
        (r, s1) \<Rightarrow> (case fetch_pages E s1 pages of (rs, s2) \<Rightarrow> (r # rs, s2)))"

text \<open>The relation the counters are claimed to keep.\<close>

definition stats_inv :: "run_stats \<Rightarrow> bool" where
  "stats_inv st \<longleftrightarrow>
     total_requests st = successful_requests st + failed_requests st \<and>
     retried_requests st \<le> failed_requests st"

text \<open>The page of an event that reports a completed task, and the final report.\<close>

definition completion_page :: "event \<Rightarrow> int option" where
  "completion_page e =
     (case content e of
        Progress page completed pages found \<Rightarrow> Some page
      | PageException page x \<Rightarrow> Some page
      | _ \<Rightarrow> None)"

definition is_summary :: "event \<Rightarrow> bool" where
  "is_summary e = (case content e of Summary found st \<Rightarrow> True | _ \<Rightarrow> False)"

definition is_result :: "event \<Rightarrow> bool" where
  "is_result e \<longleftrightarrow> ev_type e = ''result''"

subsection \<open>Concrete worlds, to run the model\<close>

text \<open>
  A world that counts the requests made so far. The network answers from the page and
  that count; sleeping changes nothing; lower-casing is the ASCII one; the limit of
  \<^verbatim>\<open>int\<close> is the default one; \<^verbatim>\<open>urljoin\<close> of the
  site and an absolute path puts the two together; the pool completes the tasks of
  the first hundred pages in the reverse of the order of submission.
\<close>

definition ascii_lower :: "string \<Rightarrow> string" where
  "ascii_lower x =
     map (\<lambda>c. if 65 \<le> (of_char c :: nat) \<and> (of_char c :: nat) \<le> 90
              then char_of ((of_char c :: nat) + 32) else c) x"

text \<open>A part of the table of the digits: the Arabic-Indic digits U+0660 to U+0669, two
  bytes each.\<close>

definition arabic_indic_digit :: "string \<Rightarrow> (int \<times> nat) option" where
  "arabic_indic_digit x =
     (case x of
        c1 # c2 # cs \<Rightarrow>
          if (of_char c1 :: nat) = 217 \<and> 160 \<le> (of_char c2 :: nat) \<and> (of_char c2 :: nat) \<le> 169
          then Some (int (of_char c2) - 160, 2) else None
      | _ \<Rightarrow> None)"

definition test_env ::
  "(int \<Rightarrow> nat \<Rightarrow> get_result) \<Rightarrow> (string \<Rightarrow> string + node) \<Rightarrow> nat env" where
  "test_env net parser =
     \<lparr>session_get = (\<lambda>page n. (net page n, Suc n)),
      time_sleep = (\<lambda>retry_count n. n),
      html_parser = parser,
      str_lower = ascii_lower,
      str_strip = (\<lambda>x. x),
      urljoin = (\<lambda>base url. base @ url),
      unicode_digit = arabic_indic_digit,
      int_max_str_digits = 4300,
      completion_time = (\<lambda>page. nat (100 - page))\<rparr>"

definition net_down :: "int \<Rightarrow> nat \<Rightarrow> get_result" where
  "net_down page n = RequestException ''ConnectionError''"

text \<open>A page with no results list and no pager.\<close>

definition bare :: node where
  "bare = Tag ''html'' [] [Tag ''p'' [] [NavigableString ''nothing here'']]"

definition net_broken :: "int \<Rightarrow> nat \<Rightarrow> get_result" where
  "net_broken page n = OtherException ''RuntimeError''"

text \<open>Page 1 is down, page 2 answers, and the request for any other page raises an
  exception that is not a \<^verbatim>\<open>RequestException\<close>.\<close>

definition net_mixed :: "int \<Rightarrow> nat \<Rightarrow> get_result" where
  "net_mixed page n =
     (if page = 1 then RequestException ''ConnectionError''
      else if page = 2 then Response 200 ''<html>''
      else OtherException ''RuntimeError'')"

text \<open>A body that the parser rejects, and a parser that rejects it.\<close>

definition net_malformed :: "int \<Rightarrow> nat \<Rightarrow> get_result" where
  "net_malformed page n = Response 200 ''<![foo[x]]>''"

definition strict_parser :: "string \<Rightarrow> string + node" where
  "strict_parser html =
     (if html = ''<![foo[x]]>'' then Inl ''ParserRejectedMarkup'' else Inr bare)"


definition no_parser :: "string \<Rightarrow> string + node" where
  "no_parser html = Inl ''ParserRejectedMarkup''"

text \<open>A listing page: a results list of three items (the second has no link of the
  catalogue) and a pager with the given links. The second link of the mixed listing has
  the page number 3 written as the Arabic-Indic digit U+0663.\<close>

definition listing_of :: "string list \<Rightarrow> node" where
  "listing_of hrefs =
     Tag ''html'' []
       [Tag ''section'' [(''class'', [''mg-t10'', ''border'', ''soft-list''])]
          [Tag ''ul'' [(''id'', [''li-change-color'']), (''class'', [''soft-list-bd'', ''hover-one''])]
             [Tag ''li'' []
                [Tag ''a'' [(''class'', [''mg-r10'']), (''href'', [''/font/1.html''])]
                   [NavigableString ''Song A'']],
              Tag ''li'' [] [NavigableString ''sold out''],
              Tag ''li'' []
                [Tag ''a'' [(''class'', [''mg-r10'']), (''href'', [''/font/2.html''])]
                   [NavigableString ''Other'']]]],
        Tag ''div'' [(''class'', [''pages''])]
          (map (\<lambda>href. Tag ''a'' [(''href'', [href])] [NavigableString ''page'']) hrefs)]"

definition listing :: node where
  "listing = listing_of [''list_200_2.html'', ''/font/list_200_17.html'']"

definition mixed_listing :: node where
  "mixed_listing = listing_of [''list_200_2.html'', ''list_200_'' @ [CHR 0xD9, CHR 0xA3] @ ''.html'']"

text \<open>A link whose page number has 4301 digits, one more than \<^verbatim>\<open>int\<close> converts.\<close>

definition long_href :: string where
  "long_href = ''list_200_'' @ replicate 4301 (CHR ''7'') @ ''.html''"

definition long_listing :: node where
  "long_listing = listing_of [''list_200_2.html'', long_href]"


definition net_ok :: "int \<Rightarrow> nat \<Rightarrow> get_result" where
  "net_ok page n = Response 200 ''<html>''"

definition listing_parser :: "string \<Rightarrow> string + node" where
  "listing_parser html = Inr listing"

definition mixed_parser :: "string \<Rightarrow> string + node" where
  "mixed_parser html = Inr mixed_listing"

definition long_parser :: "string \<Rightarrow> string + node" where
  "long_parser html = Inr long_listing"


definition bare_parser :: "string \<Rightarrow> string + node" where
  "bare_parser html = Inr bare"

section \<open>Properties\<close>

subsection \<open>What one call of \<^verbatim>\<open>_fetch_page\<close> does\<close>

lemma fetch_page_cases:
  assumes "fetch_page E s page rc = (r, s')"
  obtains
    (stopped) "poll s = (True, s')" "r = Inr None"
  | (success) s1 status_code body s2 where "poll s = (False, s1)"
      "request E page (incr_total s1) = (Response status_code body, s2)"
      "r = Inr (Some body)" "s' = incr_successful s2"
  | (raised) s1 e s2 where "poll s = (False, s1)"
      "request E page (incr_total s1) = (OtherException e, s2)"
      "r = Inl e" "s' = s2"
  | (exhausted) s1 e s2 where "poll s = (False, s1)"
      "request E page (incr_total s1) = (RequestException e, s2)"
      "\<not> rc < max_retries (incr_failed s2)" "r = Inr None" "s' = incr_failed s2"
  | (stopped_retry) s1 e s2 where "poll s = (False, s1)"
      "request E page (incr_total s1) = (RequestException e, s2)"
      "rc < max_retries (incr_failed s2)" "poll (incr_failed s2) = (True, s')" "r = Inr None"
  | (retry) s1 e s2 s4 where "poll s = (False, s1)"
      "request E page (incr_total s1) = (RequestException e, s2)"
      "rc < max_retries (incr_failed s2)" "poll (incr_failed s2) = (False, s4)"
      "fetch_page E (sleep E rc (incr_retried s4)) page (rc + 1) = (r, s')"
proof -
  note * = assms[unfolded fetch_page.simps[of E s page rc]]
  show thesis
    using * that
    by (simp split: prod.splits bool.splits get_result.splits if_splits add: Let_def)
qed

lemma poll_effect:
  assumes "poll s = (b, s')"
  shows "stats s' = stats s" "io_log s' = io_log s" "should_stop s' = should_stop s"
    "max_retries s' = max_retries s" "max_workers s' = max_workers s" "keyword s' = keyword s"
    "b = fst (should_stop s (world s))" "world s' = snd (should_stop s (world s))"
  using assms by (auto simp: poll_def split: prod.splits)

lemma request_effect:
  assumes "request E page s = (r, s')"
  shows "stats s' = stats s" "io_log s' = io_log s @ [Get page]"
    "should_stop s' = should_stop s"
    "max_retries s' = max_retries s" "max_workers s' = max_workers s" "keyword s' = keyword s"
  using assms by (auto simp: request_def split: prod.splits)

lemma incr_total_effect [simp]:
  "stats (incr_total s) = (stats s)\<lparr>total_requests := total_requests (stats s) + 1\<rparr>"
  "io_log (incr_total s) = io_log s" "should_stop (incr_total s) = should_stop s"
  "max_retries (incr_total s) = max_retries s" "max_workers (incr_total s) = max_workers s"
  "keyword (incr_total s) = keyword s" "world (incr_total s) = world s"
  by (simp_all add: incr_total_def)

lemma incr_successful_effect [simp]:
  "stats (incr_successful s) =
     (stats s)\<lparr>successful_requests := successful_requests (stats s) + 1\<rparr>"
  "io_log (incr_successful s) = io_log s" "should_stop (incr_successful s) = should_stop s"
  "max_retries (incr_successful s) = max_retries s"
  "max_workers (incr_successful s) = max_workers s"
  "keyword (incr_successful s) = keyword s" "world (incr_successful s) = world s"
  by (simp_all add: incr_successful_def)

lemma incr_failed_effect [simp]:
  "stats (incr_failed s) = (stats s)\<lparr>failed_requests := failed_requests (stats s) + 1\<rparr>"
  "io_log (incr_failed s) = io_log s" "should_stop (incr_failed s) = should_stop s"
  "max_retries (incr_failed s) = max_retries s" "max_workers (incr_failed s) = max_workers s"
  "keyword (incr_failed s) = keyword s" "world (incr_failed s) = world s"
  by (simp_all add: incr_failed_def)

lemma incr_retried_effect [simp]:
  "stats (incr_retried s) = (stats s)\<lparr>retried_requests := retried_requests (stats s) + 1\<rparr>"
  "io_log (incr_retried s) = io_log s" "should_stop (incr_retried s) = should_stop s"
  "max_retries (incr_retried s) = max_retries s" "max_workers (incr_retried s) = max_workers s"
  "keyword (incr_retried s) = keyword s" "world (incr_retried s) = world s"
  by (simp_all add: incr_retried_def)

lemma sleep_effect [simp]:
  "stats (sleep E n s) = stats s"
  "io_log (sleep E n s) = io_log s @ [Sleep n]" "should_stop (sleep E n s) = should_stop s"
  "max_retries (sleep E n s) = max_retries s" "max_workers (sleep E n s) = max_workers s"
  "keyword (sleep E n s) = keyword s"
  by (simp_all add: sleep_def)

text \<open>The attributes a call leaves as they were.\<close>

lemma fetch_page_config:
  "fetch_page E s page rc = (r, s') \<Longrightarrow>
     should_stop s' = should_stop s \<and> max_retries s' = max_retries s \<and>
     max_workers s' = max_workers s \<and> keyword s' = keyword s"
proof (induction E s page rc arbitrary: r s' rule: fetch_page.induct)
  case (1 E s page rc)
  from "1.prems" show ?case
  proof (cases rule: fetch_page_cases)
    case stopped
    then show ?thesis by (simp add: poll_effect)
  next
    case (success s1 status_code body s2)
    then show ?thesis by (simp add: poll_effect request_effect)
  next
    case (raised s1 e s2)
    then show ?thesis by (simp add: poll_effect request_effect)
  next
    case (exhausted s1 e s2)
    then show ?thesis by (simp add: poll_effect request_effect)
  next
    case (stopped_retry s1 e s2)
    then show ?thesis by (simp add: poll_effect request_effect)
  next
    case (retry s1 e s2 s4)
    from "1.IH"[OF retry(1)[symmetric] refl retry(2)[symmetric] refl refl retry(3)
        retry(4)[symmetric] refl retry(5)]
    show ?thesis using retry(1,2,4) by (simp add: poll_effect request_effect)
  qed
qed

lemma gets_simps [simp]:
  "gets [] = 0" "gets (Get p # l) = 1 + gets l" "gets (Sleep n # l) = gets l"
  "gets (l @ m) = gets l + gets m"
  by (simp_all add: gets_def)

text \<open>The counters over one call, whatever the network and the caller do.\<close>

lemma fetch_page_counted:
  "fetch_page E s page rc = (r, s') \<Longrightarrow> counted (if isl r then 1 else 0) s s'"
proof (induction E s page rc arbitrary: r s' rule: fetch_page.induct)
  case (1 E s page rc)
  from "1.prems" show ?case
  proof (cases rule: fetch_page_cases)
    case stopped
    then show ?thesis by (simp add: poll_effect counted_def)
  next
    case (success s1 status_code body s2)
    then show ?thesis by (simp add: poll_effect request_effect counted_def)
  next
    case (raised s1 e s2)
    then show ?thesis by (simp add: poll_effect request_effect counted_def)
  next
    case (exhausted s1 e s2)
    then show ?thesis by (simp add: poll_effect request_effect counted_def)
  next
    case (stopped_retry s1 e s2)
    then show ?thesis by (simp add: poll_effect request_effect counted_def)
  next
    case (retry s1 e s2 s4)
    from "1.IH"[OF retry(1)[symmetric] refl retry(2)[symmetric] refl refl retry(3)
        retry(4)[symmetric] refl retry(5)]
    show ?thesis using retry(1,2,4)
      by (simp add: poll_effect request_effect counted_def split: if_splits)
  qed
qed

lemma poll_fst: "fst (poll s) = fst (should_stop s (world s))"
  by (simp add: poll_def split: prod.splits)

lemma poll_never_stop:
  "never_stop s \<Longrightarrow> poll s = (False, s\<lparr>world := snd (should_stop s (world s))\<rparr>)"
  by (simp add: never_stop_def poll_def split: prod.splits) (metis fst_conv)

lemma request_always_fails:
  assumes "always_fails E page"
  obtains e s' where "request E page s = (RequestException e, s')"
proof -
  from assms have "case fst (session_get E page (world s)) of
            RequestException e \<Rightarrow> True
          | OtherException e \<Rightarrow> False
          | Response status_code body \<Rightarrow> raise_for_status status_code"
    by (simp add: always_fails_def)
  then have "\<exists>e s'. request E page s = (RequestException e, s')"
    by (auto simp: request_def split: prod.splits get_result.splits)
  then show thesis using that by blast
qed

lemma fetch_page_failing:
  assumes "never_stop s" "always_fails E page" "rc \<le> max_retries s"
    "fetch_page E s page rc = (r, s')"
  shows "r = Inr None \<and>
     total_requests (stats s') = total_requests (stats s) + (max_retries s - rc + 1) \<and>
     failed_requests (stats s') = failed_requests (stats s) + (max_retries s - rc + 1) \<and>
     retried_requests (stats s') = retried_requests (stats s) + (max_retries s - rc) \<and>
     successful_requests (stats s') = successful_requests (stats s) \<and>
     io_log s' = io_log s @ concat (map (\<lambda>k. [Get page, Sleep k]) [rc..max_retries s - 1]) @ [Get page]"
  using assms
proof (induction E s page rc arbitrary: r s' rule: fetch_page.induct)
  case (1 E s page rc)
  obtain s1 where s1: "poll s = (False, s1)" using poll_never_stop[OF "1.prems"(1)] by simp
  obtain e s2 where s2: "request E page (incr_total s1) = (RequestException e, s2)"
    using request_always_fails[OF "1.prems"(2)] by blast
  have ns: "never_stop (incr_failed s2)"
    using "1.prems"(1) s1 s2 by (simp add: never_stop_def poll_effect request_effect)
  obtain s4 where s4: "poll (incr_failed s2) = (False, s4)" using poll_never_stop[OF ns] by simp
  have mr: "max_retries (incr_failed s2) = max_retries s"
    using s1 s2 by (simp add: poll_effect request_effect)
  show ?case
  proof (cases "rc < max_retries s")
    case True
    let ?t = "sleep E rc (incr_retried s4)"
    have eq: "fetch_page E ?t page (rc + 1) = (r, s')"
      using "1.prems"(4) s1 s2 s4 True mr by (simp add: fetch_page.simps[of E s page rc])
    have nt: "never_stop ?t"
      using ns s4 by (simp add: never_stop_def poll_effect)
    have mt: "max_retries ?t = max_retries s" using s4 mr by (simp add: poll_effect)
    have st: "total_requests (stats ?t) = total_requests (stats s) + 1"
      "failed_requests (stats ?t) = failed_requests (stats s) + 1"
      "retried_requests (stats ?t) = retried_requests (stats s) + 1"
      "successful_requests (stats ?t) = successful_requests (stats s)"
      using s1 s2 s4 by (simp_all add: poll_effect request_effect)
    have lt: "io_log ?t = io_log s @ [Get page, Sleep rc]"
      using s1 s2 s4 by (simp add: poll_effect request_effect)
    from "1.IH"[OF s1[symmetric] refl s2[symmetric] refl refl _ s4[symmetric] refl nt "1.prems"(2) _ eq]
      True mr mt
    have IH: "r = Inr None \<and>
     total_requests (stats s') = total_requests (stats ?t) + (max_retries s - (rc + 1) + 1) \<and>
     failed_requests (stats s') = failed_requests (stats ?t) + (max_retries s - (rc + 1) + 1) \<and>
     retried_requests (stats s') = retried_requests (stats ?t) + (max_retries s - (rc + 1)) \<and>
     successful_requests (stats s') = successful_requests (stats ?t) \<and>
     io_log s' = io_log ?t @ concat (map (\<lambda>k. [Get page, Sleep k]) [rc + 1..max_retries s - 1]) @ [Get page]"
      by simp
    have up: "[rc..max_retries s - 1] = rc # [rc + 1..max_retries s - 1]"
      using True by (simp add: upto_rec1)
    show ?thesis using IH st lt up by simp
  next
    case False
    then have "rc = max_retries s" using "1.prems"(3) by simp
    moreover have "r = Inr None" "s' = incr_failed s2"
      using "1.prems"(4) s1 s2 False mr by (simp_all add: fetch_page.simps[of E s page rc])
    ultimately show ?thesis using s1 s2 by (simp add: poll_effect request_effect)
  qed
qed

subsection \<open>C6: cancellation on entry\<close>

text \<open>
  C6. If the cancellation signal is set when \<^verbatim>\<open>_fetch_page\<close> is entered, the call returns
  \<^verbatim>\<open>None\<close> at once, at any retry count: no counter of the statistics changes and no
  request is issued.
\<close>

theorem fetch_page_cancelled_on_entry:
  assumes "fst (should_stop s (world s))"
  shows "fst (fetch_page E s page rc) = Inr None \<and>
         stats (snd (fetch_page E s page rc)) = stats s \<and>
         io_log (snd (fetch_page E s page rc)) = io_log s"
proof -
  obtain s1 where s1: "poll s = (True, s1)"
    using assms poll_fst[of s] by (cases "poll s") auto
  then have "fetch_page E s page rc = (Inr None, s1)"
    by (simp add: fetch_page.simps[of E s page rc])
  then show ?thesis using s1 by (simp add: poll_effect)
qed

theorem fetch_page_cancelled_on_entry_witness:
  "fst (fetch_page (test_env net_down no_parser)
          ((init 8 0)\<lparr>should_stop := (\<lambda>w. (True, w))\<rparr>) 5 0) = Inr None \<and>
   stats (snd (fetch_page (test_env net_down no_parser)
          ((init 8 0)\<lparr>should_stop := (\<lambda>w. (True, w))\<rparr>) 5 0)) = init_stats \<and>
   io_log (snd (fetch_page (test_env net_down no_parser)
          ((init 8 0)\<lparr>should_stop := (\<lambda>w. (True, w))\<rparr>) 5 0)) = []"
  using fetch_page_cancelled_on_entry
          [of "(init 8 0)\<lparr>should_stop := (\<lambda>w. (True, w))\<rparr>" "test_env net_down no_parser" 5 0]
  by (simp add: init_def)

subsection \<open>C2: the retry bound\<close>

text \<open>
  C2. For a page whose transport fails on every attempt, with the cancellation signal
  never set, \<^verbatim>\<open>_fetch_page\<close> makes the first attempt and exactly \<^verbatim>\<open>max_retries\<close> retries,
  each after a sleep, and then returns \<^verbatim>\<open>None\<close>: \<^verbatim>\<open>total_requests\<close> and
  \<^verbatim>\<open>failed_requests\<close> grow by \<^verbatim>\<open>max_retries + 1\<close>, \<^verbatim>\<open>retried_requests\<close> by \<^verbatim>\<open>max_retries\<close>,
  and \<^verbatim>\<open>successful_requests\<close> stays.
\<close>

theorem fetch_page_retry_bound:
  assumes "never_stop s" and "always_fails E page" and "0 \<le> max_retries s"
  shows "fst (fetch_page E s page 0) = Inr None \<and>
     total_requests (stats (snd (fetch_page E s page 0))) =
       total_requests (stats s) + (max_retries s + 1) \<and>
     failed_requests (stats (snd (fetch_page E s page 0))) =
       failed_requests (stats s) + (max_retries s + 1) \<and>
     retried_requests (stats (snd (fetch_page E s page 0))) =
       retried_requests (stats s) + max_retries s \<and>
     successful_requests (stats (snd (fetch_page E s page 0))) = successful_requests (stats s) \<and>
     io_log (snd (fetch_page E s page 0)) =
       io_log s @ concat (map (\<lambda>k. [Get page, Sleep k]) [0..max_retries s - 1]) @ [Get page]"
  using fetch_page_failing[OF assms, of "fst (fetch_page E s page 0)" "snd (fetch_page E s page 0)"]
  by simp

theorem fetch_page_retry_bound_witness:
  "fst (fetch_page (test_env net_down no_parser) (init 8 0) 5 0) = Inr None \<and>
   total_requests (stats (snd (fetch_page (test_env net_down no_parser) (init 8 0) 5 0))) = 4 \<and>
   failed_requests (stats (snd (fetch_page (test_env net_down no_parser) (init 8 0) 5 0))) = 4 \<and>
   retried_requests (stats (snd (fetch_page (test_env net_down no_parser) (init 8 0) 5 0))) = 3 \<and>
   successful_requests (stats (snd (fetch_page (test_env net_down no_parser) (init 8 0) 5 0))) = 0 \<and>
   io_log (snd (fetch_page (test_env net_down no_parser) (init 8 0) 5 0)) =
     [Get 5, Sleep 0, Get 5, Sleep 1, Get 5, Sleep 2, Get 5]"
proof -
  have ns: "never_stop (init 8 0 :: nat sniffer)"
    by (simp add: never_stop_def init_def)
  have af: "always_fails (test_env net_down no_parser) 5"
    by (simp add: always_fails_def test_env_def net_down_def)
  have mr: "0 \<le> max_retries (init 8 0 :: nat sniffer)"
    by (simp add: init_def)
  have up: "[0..(2::int)] = [0, 1, 2]"
    by (simp add: upto_rec1)
  show ?thesis
    using fetch_page_retry_bound[OF ns af mr] up
    by (simp add: init_def init_stats_def)
qed

subsection \<open>C3: a redirect\<close>




subsection \<open>C10: the counters after any calls\<close>

lemma counted_trans:
  "counted a s s1 \<Longrightarrow> counted b s1 s2 \<Longrightarrow> counted (a + b) s s2"
  by (simp add: counted_def)

lemma fetch_pages_counted:
  "fetch_pages E s pages = (rs, s') \<Longrightarrow> counted (int (length (filter isl rs))) s s'"
proof (induction pages arbitrary: s rs s')
  case Nil
  then show ?case by (simp add: counted_def)
next
  case (Cons page pages)
  obtain r s1 where r: "fetch_page E s page 0 = (r, s1)"
    by (cases "fetch_page E s page 0")
  obtain rs1 s2 where rs1: "fetch_pages E s1 pages = (rs1, s2)"
    by (cases "fetch_pages E s1 pages")
  from Cons.prems r rs1 have eq: "rs = r # rs1" "s' = s2" by simp_all
  from counted_trans[OF fetch_page_counted[OF r] Cons.IH[OF rs1]] eq
  show ?case by (cases "isl r") simp_all
qed

text \<open>
  C10 as stated fails: the total is counted before the request (line 101), and an
  exception of the request that is not a \<^verbatim>\<open>RequestException\<close> passes the handler of line
  110, so that neither a success nor a failure is counted. After the call below
  \<^verbatim>\<open>total_requests\<close> is 1 and the two other counters are 0.
\<close>

theorem escaped_exception_is_not_counted:
  "fst (fetch_pages (test_env net_broken no_parser) (init 8 0) [1]) = [Inl ''RuntimeError''] \<and>
   total_requests (stats (snd (fetch_pages (test_env net_broken no_parser) (init 8 0) [1]))) = 1 \<and>
   successful_requests
     (stats (snd (fetch_pages (test_env net_broken no_parser) (init 8 0) [1]))) = 0 \<and>
   failed_requests (stats (snd (fetch_pages (test_env net_broken no_parser) (init 8 0) [1]))) = 0"
  unfolding fetch_pages.simps fetch_page.simps[of "test_env net_broken no_parser" "init 8 0" 1 0]
  by (simp add: poll_def request_def init_def init_stats_def test_env_def net_broken_def
      incr_total_def)

text \<open>
  C10, amended. After any sequence of calls of \<^verbatim>\<open>_fetch_page\<close> on one instance, whatever
  their outcomes, \<^verbatim>\<open>total_requests\<close> has grown by the number of requests issued, which is the
  growth of \<^verbatim>\<open>successful_requests\<close> and \<^verbatim>\<open>failed_requests\<close> together plus the number of the
  calls that an exception other than a \<^verbatim>\<open>RequestException\<close> left; no counter has gone down
  and \<^verbatim>\<open>retried_requests\<close> has grown by no more than \<^verbatim>\<open>failed_requests\<close>. So from a state
  with \<^verbatim>\<open>total_requests = successful_requests + failed_requests\<close> and
  \<^verbatim>\<open>retried_requests \<le> failed_requests\<close>, as a new instance is, the second relation holds
  afterwards and the first holds up to the number of those calls; both hold when every
  call has ended in a success, a failure after its retries or a cancellation.
\<close>

theorem fetch_pages_stats_invariant:
  assumes "fetch_pages E s pages = (rs, s')"
  shows "counted (int (length (filter isl rs))) s s' \<and>
     (stats_inv (stats s) \<longrightarrow>
        total_requests (stats s') =
          successful_requests (stats s') + failed_requests (stats s')
            + int (length (filter isl rs)) \<and>
        retried_requests (stats s') \<le> failed_requests (stats s') \<and>
        ((\<forall>r \<in> set rs. \<not> isl r) \<longrightarrow> stats_inv (stats s')))"
proof -
  have c: "counted (int (length (filter isl rs))) s s'"
    using fetch_pages_counted[OF assms] .
  have "filter isl rs = []" if "\<forall>r \<in> set rs. \<not> isl r"
    using that by (simp add: filter_empty_conv)
  with c show ?thesis
    by (auto simp: counted_def stats_inv_def)
qed

theorem fetch_pages_stats_invariant_witness:
  "fst (fetch_pages (test_env net_mixed no_parser) (init 8 0) [1, 2, 3]) =
     [Inr None, Inr (Some ''<html>''), Inl ''RuntimeError''] \<and>
   total_requests (stats (snd (fetch_pages (test_env net_mixed no_parser) (init 8 0) [1, 2, 3]))) =
     successful_requests
       (stats (snd (fetch_pages (test_env net_mixed no_parser) (init 8 0) [1, 2, 3])))
     + failed_requests
       (stats (snd (fetch_pages (test_env net_mixed no_parser) (init 8 0) [1, 2, 3]))) + 1 \<and>
   retried_requests
       (stats (snd (fetch_pages (test_env net_mixed no_parser) (init 8 0) [1, 2, 3])))
     \<le> failed_requests
       (stats (snd (fetch_pages (test_env net_mixed no_parser) (init 8 0) [1, 2, 3])))"
proof -
  let ?E = "test_env net_mixed no_parser"
  have rs: "fst (fetch_pages ?E (init 8 0) [1, 2, 3]) =
      [Inr None, Inr (Some ''<html>''), Inl ''RuntimeError'']"
    by code_simp
  have i: "stats_inv (stats (init 8 (0::nat)))"
    by (simp add: stats_inv_def init_def init_stats_def)
  show ?thesis
    using fetch_pages_stats_invariant[OF surjective_pairing, of ?E "init 8 0" "[1, 2, 3]"] i rs
    by simp
qed

subsection \<open>The page count\<close>

lemma max_list_Max: "xs \<noteq> [] \<Longrightarrow> max_list xs = Max (set xs)"
proof (cases xs)
  case (Cons x ys)
  then show ?thesis using Max.set_eq_fold[of x ys] by simp
qed simp

lemma page_links_number:
  "link \<in> set (page_links E p) \<Longrightarrow> page_number E link \<noteq> None"
  by (auto simp: page_links_def find_all_def get_def page_number_def split: option.splits)

lemma page_numbers_all_Inr:
  "\<forall>link \<in> set links. \<exists>k. page_number E link = Some (Inr k) \<Longrightarrow>
     page_numbers E links = Inr (map (\<lambda>link. projr (the (page_number E link))) links)"
  by (induction links) auto

lemma page_numbers_some_Inl:
  "\<exists>link \<in> set links. \<exists>e. page_number E link = Some (Inl e) \<Longrightarrow>
     \<exists>e. page_numbers E links = Inl e"
proof (induction links)
  case Nil
  then show ?case by simp
next
  case (Cons a links)
  show ?case
  proof (cases "\<exists>e. page_number E a = Some (Inl e)")
    case True
    then show ?thesis by auto
  next
    case False
    with Cons.prems have "\<exists>link \<in> set links. \<exists>e. page_number E link = Some (Inl e)"
      by auto
    from Cons.IH[OF this] show ?thesis
      by (auto split: option.splits sum.splits)
  qed
qed

lemma pager_total_cases:
  "pager soup = None \<Longrightarrow> pager_total E soup = Inr 383"
  "pager soup = Some p \<Longrightarrow> page_links E p = [] \<Longrightarrow> pager_total E soup = Inr 383"
  "pager soup = Some p \<Longrightarrow> page_links E p \<noteq> [] \<Longrightarrow>
     \<exists>link \<in> set (page_links E p). \<exists>e. page_number E link = Some (Inl e) \<Longrightarrow>
     isl (pager_total E soup)"
  "pager soup = Some p \<Longrightarrow> page_links E p \<noteq> [] \<Longrightarrow>
     \<forall>link \<in> set (page_links E p). \<exists>k. page_number E link = Some (Inr k) \<Longrightarrow>
     pager_total E soup =
       Inr (Max (set (map (\<lambda>link. projr (the (page_number E link))) (page_links E p))))"
proof -
  show "pager soup = None \<Longrightarrow> pager_total E soup = Inr 383"
    by (simp add: pager_total_def)
  show "pager soup = Some p \<Longrightarrow> page_links E p = [] \<Longrightarrow> pager_total E soup = Inr 383"
    by (simp add: pager_total_def)
  show "isl (pager_total E soup)"
    if "pager soup = Some p" "page_links E p \<noteq> []"
      "\<exists>link \<in> set (page_links E p). \<exists>e. page_number E link = Some (Inl e)"
    using that page_numbers_some_Inl[OF that(3)] by (auto simp: pager_total_def)
  show "pager_total E soup =
       Inr (Max (set (map (\<lambda>link. projr (the (page_number E link))) (page_links E p))))"
    if "pager soup = Some p" "page_links E p \<noteq> []"
      "\<forall>link \<in> set (page_links E p). \<exists>k. page_number E link = Some (Inr k)"
    using that(1,2) page_numbers_all_Inr[OF that(3)] max_list_Max
    by (simp add: pager_total_def)
qed

lemma pager_total_value:
  "(pager soup = None \<longrightarrow> (case pager_total E soup of Inl e \<Rightarrow> 383 | Inr n \<Rightarrow> n) = 383) \<and>
   (\<forall>p. pager soup = Some p \<longrightarrow>
      (page_links E p = [] \<longrightarrow>
         (case pager_total E soup of Inl e \<Rightarrow> 383 | Inr n \<Rightarrow> n) = 383) \<and>
      (\<forall>link \<in> set (page_links E p). page_number E link \<noteq> None) \<and>
      (page_links E p \<noteq> [] \<longrightarrow>
         ((\<exists>link \<in> set (page_links E p). \<exists>e. page_number E link = Some (Inl e)) \<longrightarrow>
            (case pager_total E soup of Inl e \<Rightarrow> 383 | Inr n \<Rightarrow> n) = 383) \<and>
         ((\<forall>link \<in> set (page_links E p). \<exists>k. page_number E link = Some (Inr k)) \<longrightarrow>
            (case pager_total E soup of Inl e \<Rightarrow> 383 | Inr n \<Rightarrow> n) =
              Max (set (map (\<lambda>link. projr (the (page_number E link))) (page_links E p))))))"
proof (intro conjI allI impI ballI)
  show "(case pager_total E soup of Inl e \<Rightarrow> 383 | Inr n \<Rightarrow> n) = 383" if "pager soup = None"
    using that by (simp add: pager_total_cases(1))
next
  fix p
  show "(case pager_total E soup of Inl e \<Rightarrow> 383 | Inr n \<Rightarrow> n) = 383"
    if "pager soup = Some p" "page_links E p = []"
    using that by (simp add: pager_total_cases(2))
  show "page_number E link \<noteq> None" if "link \<in> set (page_links E p)" for link
    using that by (rule page_links_number)
  show "(case pager_total E soup of Inl e \<Rightarrow> 383 | Inr n \<Rightarrow> n) = 383"
    if "pager soup = Some p" "page_links E p \<noteq> []"
      "\<exists>link \<in> set (page_links E p). \<exists>e. page_number E link = Some (Inl e)"
    using pager_total_cases(3)[OF that] by (cases "pager_total E soup") simp_all
  show "(case pager_total E soup of Inl e \<Rightarrow> 383 | Inr n \<Rightarrow> n) =
      Max (set (map (\<lambda>link. projr (the (page_number E link))) (page_links E p)))"
    if "pager soup = Some p" "page_links E p \<noteq> []"
      "\<forall>link \<in> set (page_links E p). \<exists>k. page_number E link = Some (Inr k)"
    using pager_total_cases(4)[OF that] by simp
qed

subsection \<open>The records of a page\<close>

lemma collect_matches:
  "(name, url) \<in> set (collect E k lis) \<Longrightarrow> sublist k (str_lower E name)"
  by (induction lis) (auto simp: Let_def split: option.splits if_splits)

lemma collect_append: "collect E k (xs @ ys) = collect E k xs @ collect E k ys"
  by (induction xs) (auto simp: Let_def split: option.splits)

lemma collect_no_keyword:
  "collect E [] lis =
     List.map_filter
       (\<lambda>li. map_option
          (\<lambda>a. (get_text E a, urljoin E ''http://www.downcc.com'' (get a ''href'' [])))
          (find_font_a li)) lis"
  by (induction lis) (auto simp: Let_def split: option.splits)

lemma parse_records_matches:
  "(name, url) \<in> set (parse_records E kw soup) \<Longrightarrow>
     sublist (keyword_lower E kw) (str_lower E name)"
  by (auto simp: parse_records_def split: option.splits dest: collect_matches)

text \<open>What a page task leaves as it was, and what it returns.\<close>

lemma parse_and_filter_page_cases:
  assumes "parse_and_filter_page E s page = (res, s')"
  obtains
    (raised) e where "fetch_page E s page 0 = (Inl e, s')" "res = Inl e"
  | (no_html) "fetch_page E s page 0 = (Inr None, s') \<or> fetch_page E s page 0 = (Inr (Some []), s')"
      "res = Inr (page, [])"
  | (rejected) html e where "fetch_page E s page 0 = (Inr (Some html), s')" "html \<noteq> []"
      "html_parser E html = Inl e" "res = Inl e"
  | (parsed) html soup where "fetch_page E s page 0 = (Inr (Some html), s')" "html \<noteq> []"
      "html_parser E html = Inr soup" "res = Inr (page, parse_records E (keyword s') soup)"
  using assms
  by (auto simp: parse_and_filter_page_def split: prod.splits sum.splits option.splits if_splits)

lemma parse_and_filter_page_config:
  assumes "parse_and_filter_page E s page = (res, s')"
  shows "should_stop s' = should_stop s \<and> max_retries s' = max_retries s \<and>
     max_workers s' = max_workers s \<and> keyword s' = keyword s"
  using assms by (cases rule: parse_and_filter_page_cases) (auto dest: fetch_page_config)

lemma parse_and_filter_page_matches:
  assumes "parse_and_filter_page E s page = (Inr (p, matched), s')"
    and "(name, url) \<in> set matched"
  shows "sublist (keyword_lower E (keyword s)) (str_lower E name)"
  using assms(1)
proof (cases rule: parse_and_filter_page_cases)
  case (parsed html soup)
  with assms(2) fetch_page_config[OF parsed(1)] show ?thesis
    by (auto dest: parse_records_matches)
qed (use assms(2) in auto)

lemma detect_total_pages_config:
  assumes "detect_total_pages E s = (n, s')"
  shows "should_stop s' = should_stop s \<and> max_retries s' = max_retries s \<and>
     max_workers s' = max_workers s \<and> keyword s' = keyword s"
  using assms
  by (auto simp: detect_total_pages_def
      split: prod.splits sum.splits option.splits if_splits dest: fetch_page_config)

text \<open>The link with 4301 digits matches, and its conversion raises.\<close>

lemma digit_run_sevens:
  "digit_run (test_env net parser) (replicate n (CHR ''7'') @ ''.html'') =
     (replicate n 7, ''.html'')"
proof (induction n)
  case 0
  have "digit_at (test_env net parser) ''.html'' = None"
    by (simp add: digit_at_def test_env_def arabic_indic_digit_def)
  then show ?case by (simp add: digit_run.simps[of _ "''.html''"])
next
  case (Suc n)
  have "digit_at (test_env net parser) (CHR ''7'' # replicate n (CHR ''7'') @ ''.html'') =
      Some (7, 1)"
    by (simp add: digit_at_def)
  then show ?case
    using Suc by (simp add: digit_run.simps[of _ "CHR ''7'' # replicate n (CHR ''7'') @ ''.html''"])
qed

lemma long_href_number:
  "page_regex_search (test_env net parser) long_href = Some (replicate 4301 7)"
  "py_int (test_env net parser) (replicate 4301 7) = Inl ''ValueError''"
proof -
  show "page_regex_search (test_env net parser) long_href = Some (replicate 4301 7)"
    by (simp add: long_href_def page_regex_match_def digit_run_sevens)
  show "py_int (test_env net parser) (replicate 4301 7) = Inl ''ValueError''"
    by (simp add: py_int_def test_env_def)
qed

subsection \<open>C4: the discovery of the page count\<close>

text \<open>
  C4. \<^verbatim>\<open>_detect_total_pages\<close> returns 383 when the fetch of page 1 raises, returns
  \<^verbatim>\<open>None\<close> or returns an empty body, when the parser raises, when the pager is absent, when
  the pager has no page-number link, and when the conversion of the number of a link
  raises (the number has more digits than \<^verbatim>\<open>int\<close> accepts); otherwise it returns the
  maximum of the page numbers of the pager's links, every link having one. It returns an
  integer in every case (no exception leaves it), in the state in which the fetch ended.
\<close>

theorem detect_total_pages_fallback:
  assumes "fetch_page E s 1 0 = (r, s')"
  shows "snd (detect_total_pages E s) = s' \<and>
     ((\<exists>e. r = Inl e) \<or> r = Inr None \<or> r = Inr (Some []) \<longrightarrow>
        fst (detect_total_pages E s) = 383) \<and>
     (\<forall>html. r = Inr (Some html) \<and> html \<noteq> [] \<longrightarrow>
        (\<forall>e. html_parser E html = Inl e \<longrightarrow> fst (detect_total_pages E s) = 383) \<and>
        (\<forall>soup. html_parser E html = Inr soup \<longrightarrow>
           (pager soup = None \<longrightarrow> fst (detect_total_pages E s) = 383) \<and>
           (\<forall>p. pager soup = Some p \<longrightarrow>
              (page_links E p = [] \<longrightarrow> fst (detect_total_pages E s) = 383) \<and>
              (\<forall>link \<in> set (page_links E p). page_number E link \<noteq> None) \<and>
              (page_links E p \<noteq> [] \<longrightarrow>
                 ((\<exists>link \<in> set (page_links E p). \<exists>e. page_number E link = Some (Inl e)) \<longrightarrow>
                    fst (detect_total_pages E s) = 383) \<and>
                 ((\<forall>link \<in> set (page_links E p). \<exists>k. page_number E link = Some (Inr k)) \<longrightarrow>
                    fst (detect_total_pages E s) =
                      Max (set (map (\<lambda>link. projr (the (page_number E link)))
                                  (page_links E p))))))))"
proof -
  have a: "snd (detect_total_pages E s) = s'"
    using assms
    by (simp add: detect_total_pages_def split: sum.splits option.splits)
  have b: "(\<exists>e. r = Inl e) \<or> r = Inr None \<or> r = Inr (Some []) \<longrightarrow>
        fst (detect_total_pages E s) = 383"
    using assms by (auto simp: detect_total_pages_def)
  have c: "fst (detect_total_pages E s) = 383"
    if "r = Inr (Some html) \<and> html \<noteq> []" "html_parser E html = Inl e" for html e
    using assms that by (simp add: detect_total_pages_def)
  have d: "fst (detect_total_pages E s) = (case pager_total E soup of Inl e \<Rightarrow> 383 | Inr n \<Rightarrow> n)"
    if "r = Inr (Some html) \<and> html \<noteq> []" "html_parser E html = Inr soup" for html soup
    using assms that by (simp add: detect_total_pages_def split: sum.splits)
  show ?thesis
  proof (intro conjI)
    show "snd (detect_total_pages E s) = s'" by (rule a)
    show "(\<exists>e. r = Inl e) \<or> r = Inr None \<or> r = Inr (Some []) \<longrightarrow>
        fst (detect_total_pages E s) = 383" by (rule b)
    show "\<forall>html. r = Inr (Some html) \<and> html \<noteq> [] \<longrightarrow>
        (\<forall>e. html_parser E html = Inl e \<longrightarrow> fst (detect_total_pages E s) = 383) \<and>
        (\<forall>soup. html_parser E html = Inr soup \<longrightarrow>
           (pager soup = None \<longrightarrow> fst (detect_total_pages E s) = 383) \<and>
           (\<forall>p. pager soup = Some p \<longrightarrow>
              (page_links E p = [] \<longrightarrow> fst (detect_total_pages E s) = 383) \<and>
              (\<forall>link \<in> set (page_links E p). page_number E link \<noteq> None) \<and>
              (page_links E p \<noteq> [] \<longrightarrow>
                 ((\<exists>link \<in> set (page_links E p). \<exists>e. page_number E link = Some (Inl e)) \<longrightarrow>
                    fst (detect_total_pages E s) = 383) \<and>
                 ((\<forall>link \<in> set (page_links E p). \<exists>k. page_number E link = Some (Inr k)) \<longrightarrow>
                    fst (detect_total_pages E s) =
                      Max (set (map (\<lambda>link. projr (the (page_number E link)))
                                  (page_links E p)))))))"
    proof (intro allI impI, rule conjI; intro allI impI)
      fix html e
      assume "r = Inr (Some html) \<and> html \<noteq> []" "html_parser E html = Inl e"
      then show "fst (detect_total_pages E s) = 383" by (rule c)
    next
      fix html soup
      assume "r = Inr (Some html) \<and> html \<noteq> []" "html_parser E html = Inr soup"
      from d[OF this] show "(pager soup = None \<longrightarrow> fst (detect_total_pages E s) = 383) \<and>
           (\<forall>p. pager soup = Some p \<longrightarrow>
              (page_links E p = [] \<longrightarrow> fst (detect_total_pages E s) = 383) \<and>
              (\<forall>link \<in> set (page_links E p). page_number E link \<noteq> None) \<and>
              (page_links E p \<noteq> [] \<longrightarrow>
                 ((\<exists>link \<in> set (page_links E p). \<exists>e. page_number E link = Some (Inl e)) \<longrightarrow>
                    fst (detect_total_pages E s) = 383) \<and>
                 ((\<forall>link \<in> set (page_links E p). \<exists>k. page_number E link = Some (Inr k)) \<longrightarrow>
                    fst (detect_total_pages E s) =
                      Max (set (map (\<lambda>link. projr (the (page_number E link)))
                                  (page_links E p))))))"
        using pager_total_value[of soup E] by simp
    qed
  qed
qed

theorem detect_total_pages_fallback_witness:
  "fst (detect_total_pages (test_env net_ok listing_parser) (init 8 0)) = 17 \<and>
   fst (detect_total_pages (test_env net_ok mixed_parser) (init 8 0)) = 3 \<and>
   fst (detect_total_pages (test_env net_ok long_parser) (init 8 0)) = 383 \<and>
   fst (detect_total_pages (test_env net_ok bare_parser) (init 8 0)) = 383 \<and>
   fst (detect_total_pages (test_env net_ok no_parser) (init 8 0)) = 383 \<and>
   fst (detect_total_pages (test_env net_down no_parser) (init 8 0)) = 383"
proof -
  have ok: "fst (fetch_page (test_env net_ok parser) (init 8 0) 1 0) = Inr (Some ''<html>'')"
    for parser
    unfolding fetch_page.simps[of "test_env net_ok parser" "init 8 0" 1 0]
    by (simp add: poll_def request_def init_def init_stats_def
        test_env_def net_ok_def raise_for_status_def incr_total_def incr_successful_def)
  have down: "fst (fetch_page (test_env net_down no_parser) (init 8 0) 1 0) = Inr None"
    using fetch_page_failing[of "init 8 0" "test_env net_down no_parser" 1 0, OF _ _ _ surjective_pairing]
    by (simp add: never_stop_def always_fails_def init_def test_env_def net_down_def)
  have hp: "html_parser (test_env net_ok listing_parser) ''<html>'' = Inr listing"
    "html_parser (test_env net_ok mixed_parser) ''<html>'' = Inr mixed_listing"
    "html_parser (test_env net_ok bare_parser) ''<html>'' = Inr bare"
    "html_parser (test_env net_ok no_parser) ''<html>'' = Inl ''ParserRejectedMarkup''"
    by (simp_all add: test_env_def listing_parser_def mixed_parser_def bare_parser_def
        no_parser_def)
  have p: "pager listing \<noteq> None" "pager mixed_listing \<noteq> None" "pager bare = None"
    by code_simp+
  have l: "map (page_number (test_env net_ok listing_parser))
             (page_links (test_env net_ok listing_parser) (the (pager listing))) =
           [Some (Inr 2), Some (Inr 17)]"
    by code_simp
  have m: "map (page_number (test_env net_ok mixed_parser))
             (page_links (test_env net_ok mixed_parser) (the (pager mixed_listing))) =
           [Some (Inr 2), Some (Inr 3)]"
    by code_simp
  have numbers: "(\<forall>link \<in> set links. \<exists>k. f link = Some (Inr k)) \<and>
      map (\<lambda>link. projr (the (f link))) links = ns"
    if "map f links = map (\<lambda>n. Some (Inr n)) ns"
    for f :: "node \<Rightarrow> (string + int) option" and links ns
    using that by (induction links arbitrary: ns) auto
  note nl = numbers[of "page_number (test_env net_ok listing_parser)" _ "[2, 17]"]
  note nm = numbers[of "page_number (test_env net_ok mixed_parser)" _ "[2, 3]"]
  have 1: "fst (detect_total_pages (test_env net_ok listing_parser) (init 8 0)) = 17"
    using detect_total_pages_fallback[OF surjective_pairing, of "test_env net_ok listing_parser" "init 8 0"]
      ok[of listing_parser] hp(1) p(1) nl l
    by auto
  have 2: "fst (detect_total_pages (test_env net_ok mixed_parser) (init 8 0)) = 3"
    using detect_total_pages_fallback[OF surjective_pairing, of "test_env net_ok mixed_parser" "init 8 0"]
      ok[of mixed_parser] hp(2) p(2) nm m
    by auto
  let ?L = "test_env net_ok long_parser"
  let ?a1 = "Tag ''a'' [(''href'', [''list_200_2.html''])] [NavigableString ''page'']"
  let ?a2 = "Tag ''a'' [(''href'', [long_href])] [NavigableString ''page'']"
  have hl: "html_parser ?L ''<html>'' = Inr long_listing"
    by (simp add: test_env_def long_parser_def)
  have pl: "pager long_listing = Some (Tag ''div'' [(''class'', [''pages''])] [?a1, ?a2])"
    by (simp add: pager_def long_listing_def listing_of_def find_tag_def attr_is_def)
  have two: "page_regex_search ?L ''list_200_2.html'' = Some [2]"
    by code_simp
  have ll: "page_links ?L (Tag ''div'' [(''class'', [''pages''])] [?a1, ?a2]) = [?a1, ?a2]"
    by (simp add: page_links_def find_all_def two long_href_number(1)
        del: page_regex_search.simps)
  have nl2: "page_number ?L ?a2 = Some (Inl ''ValueError'')"
    by (simp add: page_number_def get_def long_href_number)
  have 6: "fst (detect_total_pages ?L (init 8 0)) = 383"
    using detect_total_pages_fallback[OF surjective_pairing, of ?L "init 8 0"]
      ok[of long_parser] hl pl ll nl2
    by simp
  have 3: "fst (detect_total_pages (test_env net_ok bare_parser) (init 8 0)) = 383"
    using detect_total_pages_fallback[OF surjective_pairing, of "test_env net_ok bare_parser" "init 8 0"]
      ok[of bare_parser] hp(3) p(3)
    by simp
  have 4: "fst (detect_total_pages (test_env net_ok no_parser) (init 8 0)) = 383"
    using detect_total_pages_fallback[OF surjective_pairing, of "test_env net_ok no_parser" "init 8 0"]
      ok[of no_parser] hp(4)
    by simp
  have 5: "fst (detect_total_pages (test_env net_down no_parser) (init 8 0)) = 383"
    using detect_total_pages_fallback[OF surjective_pairing, of "test_env net_down no_parser" "init 8 0"]
      down
    by simp
  from 1 2 3 4 5 6 show ?thesis by simp
qed

subsection \<open>C7: a page without the expected markup\<close>

text \<open>
  C7 as stated fails: \<^verbatim>\<open>_parse_and_filter_page\<close> builds the tree outside any \<^verbatim>\<open>try\<close> (line
  141), so markup that the parser rejects raises out of the page task. Below, the body of
  the page is a malformed declaration and the parser answers it with
  \<^verbatim>\<open>ParserRejectedMarkup\<close>.
\<close>

theorem rejected_markup_raises:
  "fst (parse_and_filter_page (test_env net_malformed strict_parser) (init 8 0) 5) =
     Inl ''ParserRejectedMarkup''"
  unfolding parse_and_filter_page_def
    fetch_page.simps[of "test_env net_malformed strict_parser" "init 8 0" 5 0]
  by (simp add: poll_def request_def init_def init_stats_def test_env_def net_malformed_def
      strict_parser_def raise_for_status_def incr_total_def incr_successful_def)

text \<open>
  C7, amended. On every document tree that the parser builds, a page without the results
  container, or without the item list inside it, gives no record; an item without a link
  of the catalogue gives no record and the other items of the page give theirs; nothing
  in the reading of the tree raises. A page task whose fetch returned a body returns the
  page with its records when the tree is built, and raises what the parser raises when
  the parser rejects the markup; \<^verbatim>\<open>search\<close> reports such a page in a \<^verbatim>\<open>status\<close> event and goes
  on with the pages that are left.
\<close>

theorem parse_records_missing_markup:
  "(target_section soup = None \<longrightarrow> parse_records E kw soup = []) \<and>
   (\<forall>section. target_section soup = Some section \<and> font_ul section = None \<longrightarrow>
      parse_records E kw soup = []) \<and>
   (\<forall>before li after. find_font_a li = None \<longrightarrow>
      collect E k (before @ li # after) = collect E k before @ collect E k after) \<and>
   (\<forall>html s'. fetch_page E s page 0 = (Inr (Some html), s') \<and> html \<noteq> [] \<longrightarrow>
      parse_and_filter_page E s page =
        ((case html_parser E html of
            Inl e \<Rightarrow> Inl e
          | Inr tree \<Rightarrow> Inr (page, parse_records E (keyword s) tree)), s')) \<and>
   (\<forall>e s1 s2 pages completed found rest.
      parse_and_filter_page E s page = (Inl e, s1) \<and> poll s1 = (False, s2) \<longrightarrow>
      fst (drain E pages s completed found (page # rest)) =
        status (PageException page e) # fst (drain E pages s2 completed found rest))"
proof -
  have "\<forall>html s'. fetch_page E s page 0 = (Inr (Some html), s') \<and> html \<noteq> [] \<longrightarrow>
      parse_and_filter_page E s page =
        ((case html_parser E html of
            Inl e \<Rightarrow> Inl e
          | Inr tree \<Rightarrow> Inr (page, parse_records E (keyword s) tree)), s')"
    by (auto simp: parse_and_filter_page_def split: sum.splits dest: fetch_page_config)
  moreover have "\<forall>e s1 s2 pages completed found rest.
      parse_and_filter_page E s page = (Inl e, s1) \<and> poll s1 = (False, s2) \<longrightarrow>
      fst (drain E pages s completed found (page # rest)) =
        status (PageException page e) # fst (drain E pages s2 completed found rest)"
    by (auto split: prod.splits)
  ultimately show ?thesis
    by (simp add: parse_records_def collect_append)
qed

theorem parse_records_missing_markup_witness:
  "parse_records (test_env net_ok bare_parser) (Some ''song'') bare = [] \<and>
   collect (test_env net_ok listing_parser) []
     ([Tag ''li'' [] [Tag ''a'' [(''class'', [''mg-r10'']), (''href'', [''/font/1.html''])]
                        [NavigableString ''Song A'']]]
      @ Tag ''li'' [] [NavigableString ''sold out'']
      # [Tag ''li'' [] [Tag ''a'' [(''class'', [''mg-r10'']), (''href'', [''/font/2.html''])]
                        [NavigableString ''Other'']]]) =
   collect (test_env net_ok listing_parser) []
     [Tag ''li'' [] [Tag ''a'' [(''class'', [''mg-r10'']), (''href'', [''/font/1.html''])]
                       [NavigableString ''Song A'']]]
   @ collect (test_env net_ok listing_parser) []
     [Tag ''li'' [] [Tag ''a'' [(''class'', [''mg-r10'']), (''href'', [''/font/2.html''])]
                       [NavigableString ''Other'']]] \<and>
   parse_and_filter_page (test_env net_ok bare_parser) (init 8 0) 5 =
     (Inr (5, []), snd (fetch_page (test_env net_ok bare_parser) (init 8 0) 5 0))"
proof -
  have t: "target_section bare = None"
    by (simp add: target_section_def bare_def find_tag_def attr_is_def)
  have f: "find_font_a (Tag ''li'' [] [NavigableString ''sold out'']) = None"
    by (simp add: find_font_a_def find_tag_def)
  have ok: "fst (fetch_page (test_env net_ok bare_parser) (init 8 0) 5 0) = Inr (Some ''<html>'')"
    unfolding fetch_page.simps[of "test_env net_ok bare_parser" "init 8 0" 5 0]
    by (simp add: poll_def request_def init_def init_stats_def
        test_env_def net_ok_def raise_for_status_def incr_total_def incr_successful_def)
  then have ok': "fetch_page (test_env net_ok bare_parser) (init 8 0) 5 0 =
      (Inr (Some ''<html>''), snd (fetch_page (test_env net_ok bare_parser) (init 8 0) 5 0))"
    by (metis surjective_pairing)
  have hp: "html_parser (test_env net_ok bare_parser) ''<html>'' = Inr bare"
    by (simp add: test_env_def bare_parser_def)
  have a: "parse_records (test_env net_ok bare_parser) kw bare = []" for kw
    using parse_records_missing_markup
      [of bare "test_env net_ok bare_parser" kw "[]" "init 8 0" 5] t
    by blast
  have b: "parse_and_filter_page (test_env net_ok bare_parser) (init 8 0) 5 =
     (Inr (5, []), snd (fetch_page (test_env net_ok bare_parser) (init 8 0) 5 0))"
  proof -
    have ne: "''<html>'' \<noteq> []" by simp
    note th = parse_records_missing_markup
      [of bare "test_env net_ok bare_parser" None "[]" "init 8 0" 5,
        THEN conjunct2, THEN conjunct2, THEN conjunct2, THEN conjunct1, rule_format,
        OF conjI[OF ok' ne]]
    show ?thesis using th hp a by (simp add: init_def)
  qed
  show ?thesis
    using a[of "Some ''song''"] b
      parse_records_missing_markup
      [of bare "test_env net_ok listing_parser" None "[]" "init 8 0" 1] f
    by blast
qed

subsection \<open>The loop over the completed tasks\<close>


lemma event_simps [simp]:
  "completion_page (status (Progress page c t f)) = Some page"
  "completion_page (status (PageException page x)) = Some page"
  "completion_page (result r) = None"
  "\<not> is_summary (status (Progress page c t f))"
  "\<not> is_summary (status (PageException page x))"
  "\<not> is_summary (result r)"
  "is_summary (status (Summary n st))"
  "\<not> is_result (status m)" "is_result (result r)"
  "ev_type (status m) = ''status''" "ev_type (result r) = ''result''"
  by (simp_all add: completion_page_def is_summary_def is_result_def status_def result_def)


lemma map_filter_results [simp]: "List.map_filter completion_page (map result rs) = []"
  by (induction rs) simp_all

lemma filter_summary_results [simp]: "filter is_summary (map result rs) = []"
  by (induction rs) simp_all

lemma filter_result_results [simp]: "filter is_result (map result rs) = map result rs"
  by (induction rs) simp_all


lemma run_rest_keyword: "keyword (run_rest E s rest) = keyword s"
proof (induction rest arbitrary: s)
  case (Cons page rest)
  then show ?case
    using parse_and_filter_page_config[OF surjective_pairing, of E s page] by simp
qed simp

lemma drain_results:
  assumes "keyword s = Some K" and "drain E tp s c f order = (evs, f', s')"
    and "Event ''result'' (Found name url) \<in> set evs"
  shows "sublist (str_lower E K) (str_lower E name)"
  using assms
proof (induction order arbitrary: s c f evs f' s')
  case Nil
  then show ?case by simp
next
  case (Cons page rest)
  obtain res s1 where t: "parse_and_filter_page E s page = (res, s1)"
    by (cases "parse_and_filter_page E s page")
  obtain b s2 where p: "poll s1 = (b, s2)" by (cases "poll s1")
  have k2: "keyword s2 = Some K"
    using Cons.prems(1) parse_and_filter_page_config[OF t] p by (simp add: poll_effect)
  show ?case
  proof (cases b)
    case True
    then have "evs = [status Aborted]" using Cons.prems(2) t p by simp
    then show ?thesis using Cons.prems(3) by (simp add: status_def)
  next
    case False
    show ?thesis
    proof (cases res)
      case (Inl e)
      obtain evs1 where d: "drain E tp s2 c f rest = (evs1, f', s')"
        and e: "evs = status (PageException page e) # evs1"
        using Cons.prems(2) t p False Inl by (auto split: prod.splits)
      from Cons.prems(3) e have "Event ''result'' (Found name url) \<in> set evs1"
        by (simp add: status_def)
      from Cons.IH[OF k2 d this] show ?thesis .
    next
      case (Inr pm)
      obtain p' matched where pm: "pm = (p', matched)" by (cases pm)
      obtain evs1 where d: "drain E tp s2 (c + 1) (f + int (length matched)) rest = (evs1, f', s')"
        and e: "evs = status (Progress page (c + 1) tp f) # map result matched @ evs1"
        using Cons.prems(2) t p False Inr pm by (auto split: prod.splits)
      from Cons.prems(3) e consider "(name, url) \<in> set matched"
        | "Event ''result'' (Found name url) \<in> set evs1"
        by (auto simp: status_def result_def)
      then show ?thesis
      proof cases
        case 1
        with parse_and_filter_page_matches[of E s page p' matched s1 name url] t Inr pm
          Cons.prems(1)
        show ?thesis by (simp add: keyword_lower_def)
      next
        case 2
        from Cons.IH[OF k2 d this] show ?thesis .
      qed
    qed
  qed
qed

text \<open>The whole of \<^verbatim>\<open>search\<close>, taken apart.\<close>

lemma search_cases:
  obtains tp s1 evs found s2 stop s3 where
    "detect_total_pages E (s\<lparr>keyword := Some kw\<rparr>) = (tp, s1)"
    "drain E tp s1 0 0 (as_completed E (submit tp)) = (evs, found, s2)"
    "poll s2 = (stop, s3)"
    "search E s kw =
       ([status Detecting, status (Detected tp), status (Starting (max_workers s) kw)]
        @ evs @ (if \<not> stop then [status (Summary found (stats s3))] else []), s3)"
proof -
  obtain tp s1 where 1: "detect_total_pages E (s\<lparr>keyword := Some kw\<rparr>) = (tp, s1)"
    by (cases "detect_total_pages E (s\<lparr>keyword := Some kw\<rparr>)")
  obtain evs found s2 where
    2: "drain E tp s1 0 0 (as_completed E (submit tp)) = (evs, found, s2)"
    by (cases "drain E tp s1 0 0 (as_completed E (submit tp))")
  obtain stop s3 where 3: "poll s2 = (stop, s3)" by (cases "poll s2")
  show thesis using that[OF 1 2 3] 1 2 3 by (simp add: search_def)
qed

subsection \<open>C1: the tasks and the end of the stream\<close>








subsection \<open>C5: the keyword\<close>

text \<open>
  C5. For every parsed page and every keyword \<open>K\<close>, each record of the page's result has a
  name whose lower-cased form contains the lower-cased \<open>K\<close>; if the lower-cased \<open>K\<close>
  is empty (as it is for the empty \<open>K\<close>), the result holds a record for every item of
  the list that has a link of the catalogue; and the name in every \<^verbatim>\<open>result\<close> event of
  \<^verbatim>\<open>search\<close> with \<open>K\<close> contains \<open>K\<close> in this sense.
\<close>

theorem keyword_filter:
  "(\<forall>(name, url) \<in> set (parse_records E (Some K) soup).
      sublist (str_lower E K) (str_lower E name)) \<and>
   (str_lower E K = [] \<longrightarrow>
      (\<forall>section ul. target_section soup = Some section \<and> font_ul section = Some ul \<longrightarrow>
         parse_records E (Some K) soup =
           List.map_filter
             (\<lambda>li. map_option
                (\<lambda>a. (get_text E a, urljoin E ''http://www.downcc.com'' (get a ''href'' [])))
                (find_font_a li))
             (find_all ''li'' (\<lambda>t. True) ul))) \<and>
   (\<forall>name url. Event ''result'' (Found name url) \<in> set (fst (search E s K)) \<longrightarrow>
      sublist (str_lower E K) (str_lower E name))"
proof -
  have a: "\<forall>(name, url) \<in> set (parse_records E (Some K) soup).
      sublist (str_lower E K) (str_lower E name)"
    using parse_records_matches[of _ _ E "Some K" soup] by (auto simp: keyword_lower_def)
  have b: "str_lower E K = [] \<longrightarrow>
      (\<forall>section ul. target_section soup = Some section \<and> font_ul section = Some ul \<longrightarrow>
         parse_records E (Some K) soup =
           List.map_filter
             (\<lambda>li. map_option
                (\<lambda>a. (get_text E a, urljoin E ''http://www.downcc.com'' (get a ''href'' [])))
                (find_font_a li))
             (find_all ''li'' (\<lambda>t. True) ul))"
    by (simp add: parse_records_def keyword_lower_def collect_no_keyword)
  have c: "sublist (str_lower E K) (str_lower E name)"
    if r: "Event ''result'' (Found name url) \<in> set (fst (search E s K))" for name url
  proof -
    obtain tp s1 evs found s2 stop s3 where
      1: "detect_total_pages E (s\<lparr>keyword := Some K\<rparr>) = (tp, s1)" and
      2: "drain E tp s1 0 0 (as_completed E (submit tp)) = (evs, found, s2)" and
      4: "search E s K =
       ([status Detecting, status (Detected tp), status (Starting (max_workers s) K)]
        @ evs @ (if \<not> stop then [status (Summary found (stats s3))] else []), s3)"
      by (rule search_cases)
    have k: "keyword s1 = Some K" using detect_total_pages_config[OF 1] by simp
    from r 4 have "Event ''result'' (Found name url) \<in> set evs"
      by (auto simp: status_def split: if_splits)
    from drain_results[OF k 2 this] show ?thesis .
  qed
  from a b c show ?thesis by blast
qed

theorem keyword_filter_witness:
  "parse_records (test_env net_ok listing_parser) (Some ''SONG'') listing =
     [(''Song A'', ''http://www.downcc.com/font/1.html'')] \<and>
   sublist (ascii_lower ''SONG'') (ascii_lower ''Song A'') \<and>
   parse_records (test_env net_ok listing_parser) (Some []) listing =
     [(''Song A'', ''http://www.downcc.com/font/1.html''),
      (''Other'', ''http://www.downcc.com/font/2.html'')]"
proof -
  let ?E = "test_env net_ok listing_parser"
  have r: "parse_records ?E (Some ''SONG'') listing =
      [(''Song A'', ''http://www.downcc.com/font/1.html'')]"
    by code_simp
  have l: "str_lower ?E = ascii_lower" by (simp add: test_env_def)
  have e: "ascii_lower [] = []" by (simp add: ascii_lower_def)
  obtain sec where s: "target_section listing = Some sec" "font_ul sec \<noteq> None"
    by (simp add: target_section_def font_ul_def listing_def listing_of_def find_tag_def attr_is_def)
  then obtain ul where u: "font_ul sec = Some ul" by auto
  have all: "List.map_filter
             (\<lambda>li. map_option
                (\<lambda>a. (get_text ?E a, urljoin ?E ''http://www.downcc.com'' (get a ''href'' [])))
                (find_font_a li))
             (find_all ''li'' (\<lambda>t. True) (the (font_ul (the (target_section listing))))) =
     [(''Song A'', ''http://www.downcc.com/font/1.html''),
      (''Other'', ''http://www.downcc.com/font/2.html'')]"
    by code_simp
  show ?thesis
    using keyword_filter[of ?E "''SONG''" listing "init 8 0"]
      keyword_filter[of ?E "[]" listing "init 8 0"] r l e s u all
    by auto
qed

subsection \<open>C9: the snapshot\<close>

text \<open>
  C9. \<^verbatim>\<open>get_stats\<close> gives a new dictionary, not the engine's own: two calls with no fetch
  between them give equal snapshots, at addresses that differ from each other and from
  the engine's; the engine's counters are as before; an assignment to a snapshot changes
  neither the engine's counters nor the snapshot of a later call; and a later update of
  the engine's counters does not change a snapshot already taken.
\<close>

theorem get_stats_is_a_copy:
  assumes "stats_ref < length h"
  shows "snd (get_stats h stats_ref) \<noteq> stats_ref \<and>
     snd (get_stats (fst (get_stats h stats_ref)) stats_ref) \<noteq> snd (get_stats h stats_ref) \<and>
     fst (get_stats h stats_ref) ! snd (get_stats h stats_ref) = h ! stats_ref \<and>
     fst (get_stats h stats_ref) ! stats_ref = h ! stats_ref \<and>
     fst (get_stats (fst (get_stats h stats_ref)) stats_ref)
       ! snd (get_stats (fst (get_stats h stats_ref)) stats_ref) =
     fst (get_stats (fst (get_stats h stats_ref)) stats_ref) ! snd (get_stats h stats_ref) \<and>
     store (fst (get_stats h stats_ref)) (snd (get_stats h stats_ref)) f ! stats_ref =
       h ! stats_ref \<and>
     fst (get_stats (store (fst (get_stats h stats_ref)) (snd (get_stats h stats_ref)) f) stats_ref)
       ! snd (get_stats (store (fst (get_stats h stats_ref)) (snd (get_stats h stats_ref)) f)
               stats_ref) = h ! stats_ref \<and>
     store (fst (get_stats h stats_ref)) stats_ref g ! snd (get_stats h stats_ref) =
       h ! stats_ref"
  using assms by (simp add: get_stats_def alloc_def store_def nth_append)

theorem get_stats_is_a_copy_witness:
  "snd (get_stats [init_stats] 0) \<noteq> 0 \<and>
   store (fst (get_stats [init_stats] 0)) (snd (get_stats [init_stats] 0))
     (\<lambda>d. d\<lparr>total_requests := 99\<rparr>) ! 0 = init_stats \<and>
   store (fst (get_stats [init_stats] 0)) 0 (\<lambda>d. d\<lparr>total_requests := 1\<rparr>)
     ! snd (get_stats [init_stats] 0) = init_stats"
  using get_stats_is_a_copy[of 0 "[init_stats]" "\<lambda>d. d\<lparr>total_requests := 99\<rparr>"
      "\<lambda>d. d\<lparr>total_requests := 1\<rparr>"]
  by simp

subsection \<open>C8: the counters under concurrent workers\<close>

text \<open>
  C8 as stated fails: no update of a counter is under a lock. Two workers that each
  count one request, the second reading \<^verbatim>\<open>total_requests\<close> before the first has written
  it, leave the counter at 1 after both have finished.
\<close>

theorem lost_update:
  "run_schedule [0, 1, 0, 1]
     [\<lparr>todo = [Total], loaded = None\<rparr>, \<lparr>todo = [Total], loaded = None\<rparr>] init_stats =
   ([\<lparr>todo = [], loaded = None\<rparr>, \<lparr>todo = [], loaded = None\<rparr>],
    init_stats\<lparr>total_requests := 1\<rparr>)"
  by (simp add: worker_step_def init_stats_def)

lemma worker_step_twice:
  assumes "loaded w = None" and "worker_step w st = (w1, st1)" and "worker_step w1 st1 = (w2, st2)"
  shows "loaded w2 = None \<and>
     read_counter k st2 + int (count_list (todo w2) k) =
     read_counter k st + int (count_list (todo w) k)"
proof (cases "todo w")
  case Nil
  then show ?thesis using assms by (auto simp: worker_step_def)
next
  case (Cons c cs)
  then show ?thesis using assms
    by (cases c; cases k) (auto simp: worker_step_def)
qed

lemma pending_update:
  assumes "i < length ws"
  shows "pending k (ws[i := w]) + int (count_list (todo (ws ! i)) k) =
     pending k ws + int (count_list (todo w) k)"
  using assms
proof (induction ws arbitrary: i)
  case Nil
  then show ?case by simp
next
  case (Cons a ws)
  then show ?case by (cases i) (auto simp: pending_def)
qed

lemma run_schedule_serial:
  assumes "\<forall>w \<in> set ws. loaded w = None" and "run_schedule (serial turns) ws st = (ws', st')"
  shows "(\<forall>w \<in> set ws'. loaded w = None) \<and>
     read_counter k st' + pending k ws' = read_counter k st + pending k ws"
  using assms
proof (induction turns arbitrary: ws st)
  case Nil
  then show ?case by (simp add: serial_def)
next
  case (Cons i turns)
  show ?case
  proof (cases "i < length ws")
    case False
    then have "run_schedule (serial turns) ws st = (ws', st')"
      using Cons.prems(2) by (simp add: serial_def)
    from Cons.IH[OF Cons.prems(1) this] show ?thesis .
  next
    case True
    obtain w1 st1 where 1: "worker_step (ws ! i) st = (w1, st1)"
      by (cases "worker_step (ws ! i) st")
    obtain w2 st2 where 2: "worker_step w1 st1 = (w2, st2)"
      by (cases "worker_step w1 st1")
    have l: "loaded (ws ! i) = None" using Cons.prems(1) True by simp
    note t = worker_step_twice[OF l 1 2, of k]
    have r: "run_schedule (serial turns) (ws[i := w2]) st2 = (ws', st')"
      using Cons.prems(2) True 1 2 by (simp add: serial_def)
    have "\<forall>w \<in> set (ws[i := w2]). loaded w = None"
      using Cons.prems(1) t by (auto dest!: set_update_subset_insert[THEN subsetD])
    from Cons.IH[OF this r] pending_update[OF True, of k w2] t show ?thesis by simp
  qed
qed

text \<open>
  C8, amended. The updates of the counters are plain reads followed by writes, with no
  mutex and no atomic operation. When no two of them overlap (every worker that has read
  a counter writes it before any other step is made), each counter ends at its value at
  the start plus the number of the increments made: its value and the increments still
  to make add up to the same at the end as at the start.
\<close>

theorem serial_increments_are_exact:
  assumes "\<forall>w \<in> set ws. loaded w = None"
  shows "read_counter k (snd (run_schedule (serial turns) ws st))
           + pending k (fst (run_schedule (serial turns) ws st)) =
         read_counter k st + pending k ws"
  using run_schedule_serial[OF assms surjective_pairing] by simp

theorem serial_increments_are_exact_witness:
  "read_counter Total (snd (run_schedule (serial [0, 1])
       [\<lparr>todo = [Total], loaded = None\<rparr>, \<lparr>todo = [Total], loaded = None\<rparr>] init_stats))
     + pending Total (fst (run_schedule (serial [0, 1])
       [\<lparr>todo = [Total], loaded = None\<rparr>, \<lparr>todo = [Total], loaded = None\<rparr>] init_stats)) = 2"
  using serial_increments_are_exact
      [of "[\<lparr>todo = [Total], loaded = None\<rparr>, \<lparr>todo = [Total], loaded = None\<rparr>]" Total "[0, 1]"
        init_stats]
  by (simp add: pending_def init_stats_def)

end
